theory Spec2Isabelle
  imports Main "HOL-Library.AList"
begin

section \<open>The WebSocket handler of the polling service\<close>

text \<open>
  A shallow embedding of the WebSocket handler module (the second module stored in
  \<^verbatim>\<open>src/utils/logger.js\<close>, required elsewhere as \<^verbatim>\<open>websocket/handler\<close>).

  The module keeps three JavaScript \<^verbatim>\<open>Map\<close>s: \<^verbatim>\<open>clients\<close>,
  \<^verbatim>\<open>pollSubscriptions\<close> (poll id to a \<^verbatim>\<open>Set\<close> of client ids) and
  \<^verbatim>\<open>authenticatedClients\<close>. A \<^verbatim>\<open>Map\<close> is an association list in insertion
  order (\<open>AList.update\<close> overwrites in place or appends, as \<^verbatim>\<open>Map.set\<close> does); a
  \<^verbatim>\<open>Set\<close> is a list in insertion order.

  Each accepted connection owns a \<^verbatim>\<open>ws\<close> object and a \<^verbatim>\<open>clientInfo\<close> object that
  the connection's event handlers capture; \<^verbatim>\<open>clients\<close> stores a reference to the same
  \<^verbatim>\<open>clientInfo\<close>. The objects therefore live in a store indexed by a connection
  reference, and \<^verbatim>\<open>clients\<close> maps a client id to such a reference.

  Calls to the logger have no effect on any of these structures and are left out.
  Times are milliseconds since the epoch, as \<^verbatim>\<open>Date\<close> arithmetic sees them.
\<close>

subsection \<open>Data\<close>

type_synonym client_id = string
type_synonym poll_id = string
type_synonym conn_ref = nat
type_synonym time = int

datatype ready_state = CONNECTING | OPEN | CLOSING | CLOSED

record stats =
  totalClients :: nat
  authenticatedCount :: nat
  activeClients :: nat
  totalSubscriptions :: nat
  activePolls :: nat
  averageConnectionTime :: int
  timestamp :: time

text \<open>Frames sent to a client; the fixed \<^verbatim>\<open>message\<close> texts of the non-error frames are left out.\<close>

datatype frame =
    Connected client_id
  | Authenticated "string option"
  | AuthError string
  | Subscribed poll_id
  | Unsubscribed poll_id
  | PollUpdate poll_id string time
  | PongFrame time
  | StatsFrame stats
  | ErrorFrame string

text \<open>
  The transport object of the \<^verbatim>\<open>ws\<close> library, seen through what the handler uses:
  \<^verbatim>\<open>readyState\<close>, \<^verbatim>\<open>send\<close> (which may throw) and \<^verbatim>\<open>close\<close>. Whether
  \<^verbatim>\<open>send\<close> throws is decided by the transport, so it is a field the environment sets.
  \<open>sends\<close> records every call of \<^verbatim>\<open>send\<close> with its frame and whether it was accepted.
\<close>

record socket =
  readyState :: ready_state
  send_fails :: bool
  sends :: "(frame \<times> bool) list"

record clientInfo =
  ws :: conn_ref
  id_c :: client_id
  ip :: string
  userAgent :: string
  connectedAt :: time
  authenticated :: bool
  userId :: "string option"
  lastPing :: time
  lastActivity :: "time option"
  authenticatedAt :: "time option"

record authInfo =
  auth_userId :: "string option"
  auth_authenticatedAt :: time

record state =
  clients :: "(client_id \<times> conn_ref) list"
  pollSubscriptions :: "(poll_id \<times> client_id list) list"
  authenticatedClients :: "(client_id \<times> authInfo) list"
  infos :: "conn_ref \<Rightarrow> clientInfo"
  sockets :: "conn_ref \<Rightarrow> socket"
  pingIntervals :: "conn_ref \<Rightarrow> bool"
  next_conn :: nat

text \<open>How a call ended: it returned, or an exception left it.\<close>

datatype outcome = Returned | Threw

text \<open>The result of \<^verbatim>\<open>jwt.verify\<close>: it throws, or returns a payload whose \<^verbatim>\<open>userId\<close> is read.\<close>

datatype jwt_result = Invalid | Decoded "string option"

text \<open>
  A parsed client frame: the three fields \<^verbatim>\<open>handleMessage\<close> destructures, each absent
  or a string. A raw message is not JSON, the JSON \<^verbatim>\<open>null\<close> (destructuring it throws),
  or an object.
\<close>

record data =
  type_f :: "string option"
  pollId :: "string option"
  token :: "string option"

datatype raw = NotJson | JsonNull | JsonObject data

definition init :: state where
  "init = \<lparr>clients = [], pollSubscriptions = [], authenticatedClients = [],
     infos = (\<lambda>_. \<lparr>ws = 0, id_c = [], ip = [], userAgent = [], connectedAt = 0,
        authenticated = False, userId = None, lastPing = 0, lastActivity = None,
        authenticatedAt = None\<rparr>),
     sockets = (\<lambda>_. \<lparr>readyState = CLOSED, send_fails = False, sends = []\<rparr>),
     pingIntervals = (\<lambda>_. False), next_conn = 0\<rparr>"

subsection \<open>Sets and the transport\<close>

definition set_add :: "'a \<Rightarrow> 'a list \<Rightarrow> 'a list" where
  "set_add x xs = (if x \<in> set xs then xs else xs @ [x])"

definition set_delete :: "'a \<Rightarrow> 'a list \<Rightarrow> 'a list" where
  "set_delete x xs = removeAll x xs"

definition ws_send :: "conn_ref \<Rightarrow> frame \<Rightarrow> state \<Rightarrow> outcome \<times> state" where
  "ws_send w f st =
     (let s = sockets st w
      in (if send_fails s then Threw else Returned,
          st\<lparr>sockets := (sockets st)(w := s\<lparr>sends := sends s @ [(f, \<not> send_fails s)]\<rparr>)\<rparr>))"

definition ws_close :: "conn_ref \<Rightarrow> state \<Rightarrow> state" where
  "ws_close w st = st\<lparr>sockets := (sockets st)(w := (sockets st w)\<lparr>readyState := CLOSING\<rparr>)\<rparr>"

text \<open>JavaScript truthiness of a field that is absent or a string.\<close>

definition falsy :: "string option \<Rightarrow> bool" where
  "falsy v = (case v of None \<Rightarrow> True | Some s \<Rightarrow> s = [])"

subsection \<open>Client ids\<close>

definition digit36 :: "nat \<Rightarrow> char" where
  "digit36 d = ''0123456789abcdefghijklmnopqrstuvwxyz'' ! (d mod 36)"

function toString36 :: "nat \<Rightarrow> string" where
  "toString36 n = (if n < 36 then [digit36 n] else toString36 (n div 36) @ [digit36 (n mod 36)])"
  by pat_completeness auto
termination
  by (relation "measure (\<lambda>n. n)") auto

declare toString36.simps [simp del]

text \<open>
  \<^verbatim>\<open>Math.random().toString(36).substring(2) + Date.now().toString(36)\<close>: \<open>rnd\<close> is the
  base-36 rendering of the random draw, \<open>now\<close> the clock.
\<close>

definition generateClientId :: "string \<Rightarrow> time \<Rightarrow> client_id" where
  "generateClientId rnd now =
     drop 2 rnd @ (if now < 0 then ''-'' @ toString36 (nat (- now)) else toString36 (nat now))"

subsection \<open>The subscription index\<close>

text \<open>
  \<open>AList.map_entry\<close> changes the value stored under a key in place, as a method call on
  the \<^verbatim>\<open>Set\<close> that \<^verbatim>\<open>pollSubscriptions.get(pollId)\<close> returns does.
\<close>

definition subscribeToPoll :: "client_id \<Rightarrow> poll_id \<Rightarrow> state \<Rightarrow> state" where
  "subscribeToPoll clientId p st =
     (let ps = (if map_of (pollSubscriptions st) p = None
                then AList.update p [] (pollSubscriptions st) else pollSubscriptions st)
      in st\<lparr>pollSubscriptions := AList.map_entry p (set_add clientId) ps\<rparr>)"

definition unsubscribeFromPoll :: "client_id \<Rightarrow> poll_id \<Rightarrow> state \<Rightarrow> state" where
  "unsubscribeFromPoll clientId p st =
     (if map_of (pollSubscriptions st) p \<noteq> None then
        (let ps = AList.map_entry p (set_delete clientId) (pollSubscriptions st)
         in if map_of ps p = Some [] then st\<lparr>pollSubscriptions := AList.delete p ps\<rparr>
            else st\<lparr>pollSubscriptions := ps\<rparr>)
      else st)"

text \<open>
  The loop of \<^verbatim>\<open>removeFromPollSubscriptions\<close> over the entries: it deletes the client from
  every set and drops every entry whose set is then empty. Deleting the entry being visited
  does not disturb the iteration of a \<^verbatim>\<open>Map\<close>.
\<close>

fun remove_entries :: "client_id \<Rightarrow> (poll_id \<times> client_id list) list \<Rightarrow> (poll_id \<times> client_id list) list" where
  "remove_entries clientId [] = []"
| "remove_entries clientId ((p, subscribers) # rest) =
     (if set_delete clientId subscribers = [] then remove_entries clientId rest
      else (p, set_delete clientId subscribers) # remove_entries clientId rest)"

definition removeFromPollSubscriptions :: "client_id \<Rightarrow> state \<Rightarrow> state" where
  "removeFromPollSubscriptions clientId st =
     st\<lparr>pollSubscriptions := remove_entries clientId (pollSubscriptions st)\<rparr>"

subsection \<open>Authentication\<close>

definition isClientAuthenticated :: "state \<Rightarrow> client_id \<Rightarrow> bool" where
  "isClientAuthenticated st clientId =
     (case map_of (clients st) clientId of None \<Rightarrow> False | Some j \<Rightarrow> authenticated (infos st j))"

definition handleAuthentication ::
  "(string \<Rightarrow> jwt_result) \<Rightarrow> client_id \<Rightarrow> string option \<Rightarrow> conn_ref \<Rightarrow> time \<Rightarrow> state \<Rightarrow> outcome \<times> state" where
  "handleAuthentication verify clientId tok w now st =
     (case tok of
        None \<Rightarrow> ws_send w (AuthError ''Token is required'') st
      | Some t \<Rightarrow>
          if t = [] then ws_send w (AuthError ''Token is required'') st
          else (case verify t of
             Invalid \<Rightarrow> ws_send w (AuthError ''Invalid or expired token'') st
           | Decoded uid \<Rightarrow>
               (let st1 = (case map_of (clients st) clientId of
                             None \<Rightarrow> st
                           | Some j \<Rightarrow> st\<lparr>infos := (infos st)(j := (infos st j)
                                \<lparr>authenticated := True, userId := uid, authenticatedAt := Some now\<rparr>)\<rparr>);
                    st2 = st1\<lparr>authenticatedClients := AList.update clientId
                            \<lparr>auth_userId = uid, auth_authenticatedAt = now\<rparr> (authenticatedClients st1)\<rparr>;
                    r = ws_send w (Authenticated uid) st2
                in if fst r = Threw then ws_send w (AuthError ''Invalid or expired token'') (snd r)
                   else r)))"

subsection \<open>Statistics\<close>

text \<open>
  \<^verbatim>\<open>Math.round(totalTime / connections.length / 1000)\<close>, computed here on exact
  quotients; the source computes it in double precision, so the two can differ once the
  times involved leave the range in which doubles represent integers exactly. The value
  only appears in the stats frame.
\<close>

definition calculateAverageConnectionTime :: "time \<Rightarrow> state \<Rightarrow> int" where
  "calculateAverageConnectionTime now st =
     (let connections = map (\<lambda>(c, j). infos st j) (clients st)
      in if connections = [] then 0
         else (let totalTime = sum_list (map (\<lambda>client. now - connectedAt client) connections);
                   d = int (length connections) * 1000
               in (2 * totalTime + d) div (2 * d)))"

definition getConnectionStats :: "time \<Rightarrow> state \<Rightarrow> stats" where
  "getConnectionStats now st =
     (let values = map (\<lambda>(c, j). infos st j) (clients st)
      in \<lparr>totalClients = length (clients st),
          authenticatedCount = length (filter authenticated values),
          activeClients = length (filter (\<lambda>client. now - lastPing client < 60000) values),
          totalSubscriptions = sum_list (map (\<lambda>(p, subscribers). length subscribers) (pollSubscriptions st)),
          activePolls = length (pollSubscriptions st),
          averageConnectionTime = calculateAverageConnectionTime now st,
          timestamp = now\<rparr>)"

subsection \<open>The message router\<close>

text \<open>The first statement of \<^verbatim>\<open>handleMessage\<close>: stamp \<^verbatim>\<open>lastActivity\<close> if the client is registered.\<close>

definition touch :: "client_id \<Rightarrow> time \<Rightarrow> state \<Rightarrow> state" where
  "touch clientId now st =
     (case map_of (clients st) clientId of
        None \<Rightarrow> st
      | Some j \<Rightarrow> st\<lparr>infos := (infos st)(j := (infos st j)\<lparr>lastActivity := Some now\<rparr>)\<rparr>)"

definition handleMessage ::
  "(string \<Rightarrow> jwt_result) \<Rightarrow> client_id \<Rightarrow> data \<Rightarrow> conn_ref \<Rightarrow> time \<Rightarrow> state \<Rightarrow> outcome \<times> state" where
  "handleMessage verify clientId d w now st0 =
     (let st = touch clientId now st0
      in if type_f d = Some ''authenticate'' then handleAuthentication verify clientId (token d) w now st
         else if type_f d = Some ''subscribe'' then
           (case pollId d of
              None \<Rightarrow> ws_send w (ErrorFrame ''Poll ID is required for subscription'') st
            | Some p \<Rightarrow>
                if p = [] then ws_send w (ErrorFrame ''Poll ID is required for subscription'') st
                else if \<not> isClientAuthenticated st clientId
                then ws_send w (ErrorFrame ''Authentication required for poll subscriptions'') st
                else ws_send w (Subscribed p) (subscribeToPoll clientId p st))
         else if type_f d = Some ''unsubscribe'' then
           (case pollId d of
              None \<Rightarrow> ws_send w (ErrorFrame ''Poll ID is required for unsubscription'') st
            | Some p \<Rightarrow>
                if p = [] then ws_send w (ErrorFrame ''Poll ID is required for unsubscription'') st
                else ws_send w (Unsubscribed p) (unsubscribeFromPoll clientId p st))
         else if type_f d = Some ''ping'' then ws_send w (PongFrame now) st
         else if type_f d = Some ''getStats'' then
           (if isClientAuthenticated st clientId
            then ws_send w (StatsFrame (getConnectionStats now st)) st
            else ws_send w (ErrorFrame ''Authentication required'') st)
         else ws_send w (ErrorFrame ''Unknown message type'') st)"

text \<open>
  The \<^verbatim>\<open>message\<close> handler of connection \<open>k\<close>: an exception of \<^verbatim>\<open>JSON.parse\<close> or of
  \<^verbatim>\<open>handleMessage\<close> is caught and answered with the invalid-JSON error.
\<close>

definition on_message :: "(string \<Rightarrow> jwt_result) \<Rightarrow> conn_ref \<Rightarrow> raw \<Rightarrow> time \<Rightarrow> state \<Rightarrow> outcome \<times> state" where
  "on_message verify k m now st =
     (case m of
        NotJson \<Rightarrow> ws_send k (ErrorFrame ''Invalid JSON format'') st
      | JsonNull \<Rightarrow> ws_send k (ErrorFrame ''Invalid JSON format'') st
      | JsonObject d \<Rightarrow>
          (let r = handleMessage verify (id_c (infos st k)) d k now st
           in if fst r = Threw then ws_send k (ErrorFrame ''Invalid JSON format'') (snd r) else r))"

subsection \<open>Connection life cycle\<close>

definition on_connection :: "string \<Rightarrow> string \<Rightarrow> string \<Rightarrow> time \<Rightarrow> state \<Rightarrow> outcome \<times> state" where
  "on_connection addr agent rnd now st =
     (let k = next_conn st;
          clientId = generateClientId rnd now;
          clientInfo = \<lparr>ws = k, id_c = clientId, ip = addr, userAgent = agent, connectedAt = now,
             authenticated = False, userId = None, lastPing = now, lastActivity = None,
             authenticatedAt = None\<rparr>;
          st1 = st\<lparr>clients := AList.update clientId k (clients st),
                   infos := (infos st)(k := clientInfo),
                   sockets := (sockets st)(k := \<lparr>readyState = OPEN, send_fails = False, sends = []\<rparr>),
                   pingIntervals := (pingIntervals st)(k := True),
                   next_conn := Suc k\<rparr>
      in ws_send k (Connected clientId) st1)"

definition on_close :: "conn_ref \<Rightarrow> state \<Rightarrow> state" where
  "on_close k st =
     (let clientId = id_c (infos st k)
      in removeFromPollSubscriptions clientId
           (st\<lparr>clients := AList.delete clientId (clients st),
               authenticatedClients := AList.delete clientId (authenticatedClients st)\<rparr>))"

definition on_pong :: "conn_ref \<Rightarrow> time \<Rightarrow> state \<Rightarrow> state" where
  "on_pong k now st = st\<lparr>infos := (infos st)(k := (infos st k)\<lparr>lastPing := now\<rparr>)\<rparr>"

text \<open>The 30-second timer of connection \<open>k\<close>: ping and stamp \<^verbatim>\<open>lastPing\<close>, or stop the timer.\<close>

definition ping_tick :: "conn_ref \<Rightarrow> time \<Rightarrow> state \<Rightarrow> state" where
  "ping_tick k now st =
     (if pingIntervals st k then
        (if readyState (sockets st k) = OPEN
         then st\<lparr>infos := (infos st)(k := (infos st k)\<lparr>lastPing := now\<rparr>)\<rparr>
         else st\<lparr>pingIntervals := (pingIntervals st)(k := False)\<rparr>)
      else st)"

subsection \<open>The broadcast engine\<close>

text \<open>
  \<^verbatim>\<open>subscribers.forEach\<close>: the body deletes at most the element it is visiting, so
  every element of the set as it was at the start is visited once.
\<close>

definition subscribers_delete :: "poll_id \<Rightarrow> client_id \<Rightarrow> state \<Rightarrow> state" where
  "subscribers_delete p clientId st =
     st\<lparr>pollSubscriptions := AList.map_entry p (set_delete clientId) (pollSubscriptions st)\<rparr>"

definition broadcast_one :: "poll_id \<Rightarrow> frame \<Rightarrow> client_id \<Rightarrow> state \<times> nat \<times> nat \<Rightarrow> state \<times> nat \<times> nat" where
  "broadcast_one p message clientId acc =
     (case acc of (st, successCount, failCount) \<Rightarrow>
        (case map_of (clients st) clientId of
           None \<Rightarrow> (subscribers_delete p clientId st, successCount, Suc failCount)
         | Some j \<Rightarrow>
             if readyState (sockets st (ws (infos st j))) = OPEN then
               (let r = ws_send (ws (infos st j)) message st
                in if fst r = Returned then (snd r, Suc successCount, failCount)
                   else (subscribers_delete p clientId
                           ((snd r)\<lparr>clients := AList.delete clientId (clients (snd r))\<rparr>),
                         successCount, Suc failCount))
             else (subscribers_delete p clientId st, successCount, Suc failCount)))"

fun broadcast_loop :: "poll_id \<Rightarrow> frame \<Rightarrow> client_id list \<Rightarrow> state \<times> nat \<times> nat \<Rightarrow> state \<times> nat \<times> nat" where
  "broadcast_loop p message [] acc = acc"
| "broadcast_loop p message (clientId # rest) acc =
     broadcast_loop p message rest (broadcast_one p message clientId acc)"

definition broadcastPollUpdate :: "poll_id \<Rightarrow> string \<Rightarrow> time \<Rightarrow> state \<Rightarrow> outcome \<times> state" where
  "broadcastPollUpdate p pollData now st =
     (case map_of (pollSubscriptions st) p of
        None \<Rightarrow> (Returned, st)
      | Some subscribers \<Rightarrow>
          (Returned, fst (broadcast_loop p (PollUpdate p pollData now) subscribers (st, 0, 0))))"

subsection \<open>The liveness sweeper\<close>

text \<open>
  \<^verbatim>\<open>clientInfo.lastActivity || clientInfo.lastPing || clientInfo.connectedAt\<close>: a
  \<^verbatim>\<open>Date\<close> is always truthy and \<^verbatim>\<open>lastPing\<close> is set at accept time, so the third
  alternative is never taken.
\<close>

definition last_seen :: "clientInfo \<Rightarrow> time" where
  "last_seen clientInfo = (case lastActivity clientInfo of Some t \<Rightarrow> t | None \<Rightarrow> lastPing clientInfo)"

definition inactivityThreshold :: int where
  "inactivityThreshold = 5 * 60 * 1000"

text \<open>
  The body of the sweeper's loop for a stale entry: close the transport if it is open
  (\<^verbatim>\<open>close\<close> moves an open transport to \<^verbatim>\<open>CLOSING\<close>), then delete the client from the
  three maps. The loop reads each \<^verbatim>\<open>clientInfo\<close> from the entry it visits.
\<close>

definition evict :: "client_id \<Rightarrow> conn_ref \<Rightarrow> state \<Rightarrow> state" where
  "evict clientId j st =
     (let st1 = (if readyState (sockets st (ws (infos st j))) = OPEN
                 then ws_close (ws (infos st j)) st else st)
      in removeFromPollSubscriptions clientId
           (st1\<lparr>clients := AList.delete clientId (clients st1),
                authenticatedClients := AList.delete clientId (authenticatedClients st1)\<rparr>))"

fun cleanup_loop :: "time \<Rightarrow> (client_id \<times> conn_ref) list \<Rightarrow> state \<Rightarrow> state" where
  "cleanup_loop now [] st = st"
| "cleanup_loop now ((clientId, j) # rest) st =
     (if now - last_seen (infos st j) > inactivityThreshold
      then cleanup_loop now rest (evict clientId j st)
      else cleanup_loop now rest st)"

definition cleanupInactiveConnections :: "time \<Rightarrow> state \<Rightarrow> state" where
  "cleanupInactiveConnections now st = cleanup_loop now (clients st) st"

subsection \<open>Events\<close>

text \<open>
  What can happen to the module: a connection is accepted; connection \<open>k\<close> receives a
  message, closes, answers a ping, or its ping timer fires; the domain layer publishes;
  the sweeper runs; the transport of \<open>k\<close> changes its condition. Events of a connection
  that was never accepted do nothing. A step keeps the state an event handler leaves,
  whether it returned or threw; in the running server an exception that escapes a handler
  reaches the \<^verbatim>\<open>uncaughtException\<close> hook, which shuts the server down, so runs that go
  on after it are runs the server never makes, and statements about all runs cover more
  than the server does.
\<close>

datatype event =
    Connection string string string time
  | Message conn_ref raw time
  | Close conn_ref
  | Pong conn_ref time
  | PingTick conn_ref time
  | Broadcast poll_id string time
  | Cleanup time
  | Transport conn_ref ready_state bool

definition transport_change :: "conn_ref \<Rightarrow> ready_state \<Rightarrow> bool \<Rightarrow> state \<Rightarrow> state" where
  "transport_change k rs fl st =
     st\<lparr>sockets := (sockets st)(k := (sockets st k)\<lparr>readyState := rs, send_fails := fl\<rparr>)\<rparr>"

fun step :: "(string \<Rightarrow> jwt_result) \<Rightarrow> event \<Rightarrow> state \<Rightarrow> state" where
  "step verify (Connection addr agent rnd now) st = snd (on_connection addr agent rnd now st)"
| "step verify (Message k m now) st = (if k < next_conn st then snd (on_message verify k m now st) else st)"
| "step verify (Close k) st =
     (if k < next_conn st then on_close k (transport_change k CLOSED (send_fails (sockets st k)) st) else st)"
| "step verify (Pong k now) st = (if k < next_conn st then on_pong k now st else st)"
| "step verify (PingTick k now) st = (if k < next_conn st then ping_tick k now st else st)"
| "step verify (Broadcast p pollData now) st = snd (broadcastPollUpdate p pollData now st)"
| "step verify (Cleanup now) st = cleanupInactiveConnections now st"
| "step verify (Transport k rs fl) st = (if k < next_conn st then transport_change k rs fl st else st)"

fun run :: "(string \<Rightarrow> jwt_result) \<Rightarrow> event list \<Rightarrow> state \<Rightarrow> state" where
  "run verify [] st = st"
| "run verify (e # es) st = run verify es (step verify e st)"

section \<open>Sample runs\<close>

text \<open>A verifier that accepts one token, and the frames and runs used to exercise the model.\<close>

definition sample_verify :: "string \<Rightarrow> jwt_result" where
  "sample_verify t = (if t = ''valid-token'' then Decoded (Some ''user-1'') else Invalid)"

definition authenticate_frame :: "string \<Rightarrow> raw" where
  "authenticate_frame t = JsonObject \<lparr>type_f = Some ''authenticate'', pollId = None, token = Some t\<rparr>"

definition subscribe_frame :: "string \<Rightarrow> raw" where
  "subscribe_frame p = JsonObject \<lparr>type_f = Some ''subscribe'', pollId = Some p, token = None\<rparr>"

text \<open>One client, accepted at time 1000 and authenticated at time 2000; its id is \<open>''ars''\<close>.\<close>

definition one_client :: state where
  "one_client = run sample_verify
     [Connection ''10.0.0.1'' ''agent'' ''0.a'' 1000, Message 0 (authenticate_frame ''valid-token'') 2000] init"

text \<open>A client just accepted, not yet authenticated.\<close>

definition fresh_client :: state where
  "fresh_client = run sample_verify [Connection ''10.0.0.1'' ''agent'' ''0.a'' 1000] init"

subsection \<open>Observations and the registry invariant\<close>

text \<open>The subscribers of a poll, none when the poll has no entry.\<close>

definition subscribers_of :: "state \<Rightarrow> poll_id \<Rightarrow> client_id list" where
  "subscribers_of st p = (case map_of (pollSubscriptions st) p of None \<Rightarrow> [] | Some s \<Rightarrow> s)"

text \<open>The condition under which the fan-out sends to a client and the send is accepted.\<close>

definition deliverable :: "state \<Rightarrow> client_id \<Rightarrow> bool" where
  "deliverable st x =
     (case map_of (clients st) x of
        None \<Rightarrow> False
      | Some j \<Rightarrow> readyState (sockets st (ws (infos st j))) = OPEN \<and>
                  \<not> send_fails (sockets st (ws (infos st j))))"

text \<open>
  Every entry of \<^verbatim>\<open>clients\<close> refers to an allocated \<^verbatim>\<open>clientInfo\<close> that carries its own
  transport and the id it is stored under.
\<close>

definition registry_ok :: "state \<Rightarrow> bool" where
  "registry_ok st = (\<forall>(c, j) \<in> set (clients st). j < next_conn st \<and> ws (infos st j) = j \<and> id_c (infos st j) = c)"

text \<open>Three authenticated subscribers of one poll; the transport of the second is closing.\<close>

definition three_subscribers :: state where
  "three_subscribers = run sample_verify
     [Connection ''10.0.0.1'' ''agent'' ''0.a'' 1000,
      Connection ''10.0.0.2'' ''agent'' ''0.b'' 1000,
      Connection ''10.0.0.3'' ''agent'' ''0.c'' 1000,
      Message 0 (authenticate_frame ''valid-token'') 2000,
      Message 1 (authenticate_frame ''valid-token'') 2000,
      Message 2 (authenticate_frame ''valid-token'') 2000,
      Message 0 (subscribe_frame ''p1'') 3000,
      Message 1 (subscribe_frame ''p1'') 3000,
      Message 2 (subscribe_frame ''p1'') 3000,
      Transport 1 CLOSING False] init"

text \<open>The only subscriber of a poll, its transport closing.\<close>

definition lone_dead_subscriber :: state where
  "lone_dead_subscriber = run sample_verify
     [Connection ''10.0.0.1'' ''agent'' ''0.a'' 1000,
      Message 0 (authenticate_frame ''valid-token'') 2000,
      Message 0 (subscribe_frame ''p1'') 3000,
      Transport 0 CLOSING False] init"

text \<open>A subscriber of two polls whose transport is open but throws on send.\<close>

definition failing_subscriber :: state where
  "failing_subscriber = run sample_verify
     [Connection ''10.0.0.1'' ''agent'' ''0.a'' 1000,
      Message 0 (authenticate_frame ''valid-token'') 2000,
      Message 0 (subscribe_frame ''p1'') 3000,
      Message 0 (subscribe_frame ''p2'') 3500,
      Transport 0 OPEN True] init"

text \<open>A client that appears in no subscriber set.\<close>

definition sub_free :: "client_id \<Rightarrow> state \<Rightarrow> bool" where
  "sub_free c st = (\<forall>(q, subscribers) \<in> set (pollSubscriptions st). c \<notin> set subscribers)"

text \<open>One authenticated client subscribed to one poll; its last frame was handled at time 3000.\<close>

definition subscribed_client :: state where
  "subscribed_client = run sample_verify
     [Connection ''10.0.0.1'' ''agent'' ''0.a'' 1000, Message 0 (authenticate_frame ''valid-token'') 2000,
      Message 0 (subscribe_frame ''p1'') 3000] init"

text \<open>Whether an event is a frame or a pong received from connection \<open>k\<close>.\<close>

fun inbound :: "conn_ref \<Rightarrow> event \<Rightarrow> bool" where
  "inbound k (Message k' m t) = (k' = k)"
| "inbound k (Pong k' t) = (k' = k)"
| "inbound k e = False"

text \<open>
  A connection accepted at time 0 that never sends a frame or a pong while its transport
  stays open: its timer fires every 30 seconds, the sweeper runs every 2 minutes.
\<close>

definition silent_run :: "event list" where
  "silent_run =
     [Connection ''10.0.0.1'' ''agent'' ''0.a'' 0,
      PingTick 0 30000, PingTick 0 60000, PingTick 0 90000, PingTick 0 120000, Cleanup 120000,
      PingTick 0 150000, PingTick 0 180000, PingTick 0 210000, PingTick 0 240000, Cleanup 240000,
      PingTick 0 270000, PingTick 0 300000, PingTick 0 330000, PingTick 0 360000, Cleanup 360000,
      PingTick 0 390000, PingTick 0 420000, PingTick 0 450000, PingTick 0 480000, Cleanup 480000]"

text \<open>Two connections accepted in the same millisecond with the same random draw.\<close>

definition colliding_run :: "event list" where
  "colliding_run =
     [Connection ''10.0.0.1'' ''agent'' ''0.a'' 1000, Connection ''10.0.0.2'' ''agent'' ''0.a'' 1000]"




section \<open>Properties\<close>

lemmas eval_defs = init_def on_connection_def on_message_def handleMessage_def handleAuthentication_def
  ws_send_def touch_def isClientAuthenticated_def subscribeToPoll_def unsubscribeFromPoll_def
  removeFromPollSubscriptions_def generateClientId_def toString36.simps digit36_def Let_def
  on_close_def on_pong_def ping_tick_def broadcastPollUpdate_def broadcast_one_def subscribers_delete_def
  cleanupInactiveConnections_def evict_def ws_close_def last_seen_def inactivityThreshold_def
  transport_change_def set_add_def set_delete_def falsy_def

lemmas sample_defs = sample_verify_def authenticate_frame_def subscribe_frame_def one_client_def

subsection \<open>Sets and association lists\<close>

lemma set_add_idem: "set_add x (set_add x xs) = set_add x xs"
  by (simp add: set_add_def)

lemma set_set_add: "set (set_add x xs) = insert x (set xs)"
  by (auto simp: set_add_def)

lemma set_set_delete: "set (set_delete x xs) = set xs - {x}"
  by (auto simp: set_delete_def)

lemma map_entry_idem:
  "(\<And>v. f (f v) = f v) \<Longrightarrow> AList.map_entry p f (AList.map_entry p f xs) = AList.map_entry p f xs"
  by (induction xs) auto

lemma map_of_map_entry_None: "map_of (AList.map_entry p f xs) q = None \<longleftrightarrow> map_of xs q = None"
  by (simp add: map_of_map_entry split: option.splits)

lemma subscribeToPoll_lookup:
  "map_of (pollSubscriptions (subscribeToPoll c p st)) p =
     Some (set_add c (case map_of (pollSubscriptions st) p of None \<Rightarrow> [] | Some s \<Rightarrow> s))"
  by (auto simp: subscribeToPoll_def map_of_map_entry update_conv' split: option.splits)

lemma subscribeToPoll_twice: "subscribeToPoll c p (subscribeToPoll c p st) = subscribeToPoll c p st"
proof -
  define ps1 where "ps1 = (if map_of (pollSubscriptions st) p = None
                then AList.update p [] (pollSubscriptions st) else pollSubscriptions st)"
  have 1: "subscribeToPoll c p st = st\<lparr>pollSubscriptions := AList.map_entry p (set_add c) ps1\<rparr>"
    by (simp add: subscribeToPoll_def ps1_def)
  have "map_of ps1 p \<noteq> None"
    by (cases "map_of (pollSubscriptions st) p") (simp_all add: ps1_def update_conv')
  then have 2: "map_of (AList.map_entry p (set_add c) ps1) p \<noteq> None"
    by (simp only: map_of_map_entry_None not_False_eq_True)
  have "subscribeToPoll c p (st\<lparr>pollSubscriptions := AList.map_entry p (set_add c) ps1\<rparr>)
      = st\<lparr>pollSubscriptions := AList.map_entry p (set_add c) (AList.map_entry p (set_add c) ps1)\<rparr>"
    using 2 unfolding subscribeToPoll_def Let_def by auto
  then show ?thesis
    by (simp add: 1 map_entry_idem set_add_idem)
qed

subsection \<open>What each operation leaves alone\<close>

lemma ws_send_fields [simp]:
  "clients (snd (ws_send w f st)) = clients st"
  "pollSubscriptions (snd (ws_send w f st)) = pollSubscriptions st"
  "authenticatedClients (snd (ws_send w f st)) = authenticatedClients st"
  "infos (snd (ws_send w f st)) = infos st"
  "pingIntervals (snd (ws_send w f st)) = pingIntervals st"
  "next_conn (snd (ws_send w f st)) = next_conn st"
  by (simp_all add: ws_send_def Let_def)

lemma ws_send_socket [simp]:
  "readyState (sockets (snd (ws_send w f st)) i) = readyState (sockets st i)"
  "send_fails (sockets (snd (ws_send w f st)) i) = send_fails (sockets st i)"
  "sends (sockets (snd (ws_send w f st)) i) =
     (if i = w then sends (sockets st w) @ [(f, \<not> send_fails (sockets st w))] else sends (sockets st i))"
  by (simp_all add: ws_send_def Let_def)

lemma ws_send_outcome [simp]: "fst (ws_send w f st) = (if send_fails (sockets st w) then Threw else Returned)"
  by (simp add: ws_send_def Let_def)

lemma touch_fields [simp]:
  "clients (touch c now st) = clients st"
  "pollSubscriptions (touch c now st) = pollSubscriptions st"
  "authenticatedClients (touch c now st) = authenticatedClients st"
  "sockets (touch c now st) = sockets st"
  "pingIntervals (touch c now st) = pingIntervals st"
  "next_conn (touch c now st) = next_conn st"
  by (simp_all add: touch_def split: option.splits)

lemma touch_info:
  "infos (touch c now st) i =
     (if map_of (clients st) c = Some i then (infos st i)\<lparr>lastActivity := Some now\<rparr> else infos st i)"
  by (simp add: touch_def split: option.splits)

lemma isClientAuthenticated_touch [simp]:
  "isClientAuthenticated (touch c now st) c' = isClientAuthenticated st c'"
  by (simp add: isClientAuthenticated_def touch_info split: option.splits)

lemma isClientAuthenticated_ws_send [simp]:
  "isClientAuthenticated (snd (ws_send w f st)) c = isClientAuthenticated st c"
  by (simp add: isClientAuthenticated_def split: option.splits)

lemma subscribeToPoll_fields [simp]:
  "clients (subscribeToPoll c p st) = clients st"
  "authenticatedClients (subscribeToPoll c p st) = authenticatedClients st"
  "infos (subscribeToPoll c p st) = infos st"
  "sockets (subscribeToPoll c p st) = sockets st"
  "pingIntervals (subscribeToPoll c p st) = pingIntervals st"
  "next_conn (subscribeToPoll c p st) = next_conn st"
  by (simp_all add: subscribeToPoll_def Let_def)

lemma unsubscribeFromPoll_fields [simp]:
  "clients (unsubscribeFromPoll c p st) = clients st"
  "authenticatedClients (unsubscribeFromPoll c p st) = authenticatedClients st"
  "infos (unsubscribeFromPoll c p st) = infos st"
  "sockets (unsubscribeFromPoll c p st) = sockets st"
  "pingIntervals (unsubscribeFromPoll c p st) = pingIntervals st"
  "next_conn (unsubscribeFromPoll c p st) = next_conn st"
  by (simp_all add: unsubscribeFromPoll_def Let_def)

lemma removeFromPollSubscriptions_fields [simp]:
  "clients (removeFromPollSubscriptions c st) = clients st"
  "authenticatedClients (removeFromPollSubscriptions c st) = authenticatedClients st"
  "infos (removeFromPollSubscriptions c st) = infos st"
  "sockets (removeFromPollSubscriptions c st) = sockets st"
  "pingIntervals (removeFromPollSubscriptions c st) = pingIntervals st"
  "next_conn (removeFromPollSubscriptions c st) = next_conn st"
  by (simp_all add: removeFromPollSubscriptions_def)

lemma isClientAuthenticated_subscribeToPoll [simp]:
  "isClientAuthenticated (subscribeToPoll c p st) c' = isClientAuthenticated st c'"
  by (simp add: isClientAuthenticated_def split: option.splits)

lemma handleAuthentication_fields [simp]:
  "clients (snd (handleAuthentication verify c tok w now st)) = clients st"
  "pollSubscriptions (snd (handleAuthentication verify c tok w now st)) = pollSubscriptions st"
  "pingIntervals (snd (handleAuthentication verify c tok w now st)) = pingIntervals st"
  "next_conn (snd (handleAuthentication verify c tok w now st)) = next_conn st"
  by (simp_all add: handleAuthentication_def Let_def split: option.splits jwt_result.splits)

lemma handleAuthentication_readyState [simp]:
  "readyState (sockets (snd (handleAuthentication verify c tok w now st)) i) = readyState (sockets st i)"
  "send_fails (sockets (snd (handleAuthentication verify c tok w now st)) i) = send_fails (sockets st i)"
  by (simp_all add: handleAuthentication_def Let_def split: option.splits jwt_result.splits)

lemma handleMessage_fields [simp]:
  "clients (snd (handleMessage verify c d w now st)) = clients st"
  "pingIntervals (snd (handleMessage verify c d w now st)) = pingIntervals st"
  "next_conn (snd (handleMessage verify c d w now st)) = next_conn st"
  by (simp_all add: handleMessage_def Let_def split: option.splits)

lemma handleMessage_readyState [simp]:
  "readyState (sockets (snd (handleMessage verify c d w now st)) i) = readyState (sockets st i)"
  "send_fails (sockets (snd (handleMessage verify c d w now st)) i) = send_fails (sockets st i)"
  by (simp_all add: handleMessage_def Let_def split: option.splits)

subsection \<open>Idempotent subscribe\<close>

text \<open>
  C9. Subscribing a client to a poll twice leaves the state exactly as subscribing it once
  does. For an authenticated client, a second identical subscribe frame leaves the
  subscription index as the first one left it, with the client among the poll's subscribers.
\<close>

theorem subscribe_idempotent:
  "subscribeToPoll c p (subscribeToPoll c p st) = subscribeToPoll c p st \<and>
   (isClientAuthenticated st c \<and> p \<noteq> [] \<longrightarrow>
     (let sub = \<lparr>type_f = Some ''subscribe'', pollId = Some p, token = tok\<rparr>;
          once = snd (handleMessage verify c sub w t1 st);
          twice = snd (handleMessage verify c sub w t2 once)
      in pollSubscriptions twice = pollSubscriptions once \<and>
         pollSubscriptions once = pollSubscriptions (subscribeToPoll c p st) \<and>
         (\<exists>subscribers. map_of (pollSubscriptions once) p = Some subscribers \<and> c \<in> set subscribers)))"
proof -
  have a: "subscribeToPoll c p (subscribeToPoll c p st) = subscribeToPoll c p st"
    by (rule subscribeToPoll_twice)
  have b: "pollSubscriptions (subscribeToPoll c p (touch c t st')) = pollSubscriptions (subscribeToPoll c p st')"
    for t st'
    by (simp add: subscribeToPoll_def Let_def)
  have c: "pollSubscriptions (subscribeToPoll c p (snd (ws_send w f st'))) = pollSubscriptions (subscribeToPoll c p st')"
    for f st'
    by (simp add: subscribeToPoll_def Let_def)
  show ?thesis
    using a
    by (auto simp: Let_def handleMessage_def subscribeToPoll_twice b c subscribeToPoll_lookup set_set_add)
qed

theorem subscribe_idempotent_witness:
  "isClientAuthenticated one_client ''ars'' \<and> ''p1'' \<noteq> [] \<and>
     (let sub = \<lparr>type_f = Some ''subscribe'', pollId = Some ''p1'', token = None\<rparr>;
          once = snd (handleMessage sample_verify ''ars'' sub 0 3000 one_client);
          twice = snd (handleMessage sample_verify ''ars'' sub 0 4000 once)
      in pollSubscriptions twice = pollSubscriptions once \<and>
         pollSubscriptions once = [(''p1'', [''ars''])])"
  using subscribe_idempotent [of "''ars''" "''p1''" one_client None sample_verify 0 3000 4000]
  by (simp add: sample_defs eval_defs)

subsection \<open>Authentication\<close>





subsection \<open>Authentication gates subscription\<close>









subsection \<open>Protocol errors\<close>

text \<open>
  C8, as stated, fails: not every frame touches liveness. A message that is not JSON never
  reaches \<open>handleMessage\<close>, and for the JSON \<^verbatim>\<open>null\<close> \<open>handleMessage\<close> throws while
  destructuring, before the stamp; both are answered with the invalid-JSON error and leave
  \<open>lastActivity\<close> of the registered client at 2000 although they arrive at 9000.
\<close>

theorem malformed_frame_skips_liveness:
  "map_of (clients one_client) ''ars'' = Some 0 \<and>
   id_c (infos one_client 0) = ''ars'' \<and>
   lastActivity (infos one_client 0) = Some 2000 \<and>
   lastActivity (infos (snd (on_message sample_verify 0 NotJson 9000 one_client)) 0) = Some 2000 \<and>
   last (sends (sockets (snd (on_message sample_verify 0 NotJson 9000 one_client)) 0)) =
     (ErrorFrame ''Invalid JSON format'', True) \<and>
   lastActivity (infos (snd (on_message sample_verify 0 JsonNull 9000 one_client)) 0) = Some 2000 \<and>
   last (sends (sockets (snd (on_message sample_verify 0 JsonNull 9000 one_client)) 0)) =
     (ErrorFrame ''Invalid JSON format'', True)"
  by (simp add: sample_defs eval_defs)

text \<open>
  C8, amended. A message that is not JSON, or the JSON \<^verbatim>\<open>null\<close>, is answered with an
  error and changes nothing, the liveness stamp included. A frame of unknown type is
  answered with an error and changes nothing but the liveness stamp of its client; in both
  cases the transport stays as it was. Every call of \<open>handleMessage\<close> on a parsed object
  first stamps \<open>lastActivity\<close> of the client with the current time when the client has an
  entry in \<open>clients\<close>.
\<close>

theorem protocol_error_no_mutation:
  "(m = NotJson \<or> m = JsonNull \<longrightarrow>
      (let st' = snd (on_message verify k m now st)
       in clients st' = clients st \<and> infos st' = infos st \<and>
          authenticatedClients st' = authenticatedClients st \<and>
          pollSubscriptions st' = pollSubscriptions st \<and>
          (\<forall>i. readyState (sockets st' i) = readyState (sockets st i)) \<and>
          sends (sockets st' k) = sends (sockets st k) @
            [(ErrorFrame ''Invalid JSON format'', \<not> send_fails (sockets st k))])) \<and>
   (type_f d \<notin> {Some ''authenticate'', Some ''subscribe'', Some ''unsubscribe'', Some ''ping'',
                 Some ''getStats''} \<longrightarrow>
      (let c = id_c (infos st k); r = on_message verify k (JsonObject d) now st; st' = snd r
       in clients st' = clients st \<and> infos st' = infos (touch c now st) \<and>
          authenticatedClients st' = authenticatedClients st \<and>
          pollSubscriptions st' = pollSubscriptions st \<and>
          (\<forall>i. readyState (sockets st' i) = readyState (sockets st i)) \<and>
          (\<forall>i. i \<noteq> k \<longrightarrow> sends (sockets st' i) = sends (sockets st i)) \<and>
          (\<not> send_fails (sockets st k) \<longrightarrow> fst r = Returned \<and>
             sends (sockets st' k) = sends (sockets st k) @ [(ErrorFrame ''Unknown message type'', True)]))) \<and>
   (\<forall>j. map_of (clients st) c' = Some j \<longrightarrow>
      lastActivity (infos (snd (handleMessage verify c' d w now st)) j) = Some now \<and>
      handleMessage verify c' d w now st = handleMessage verify c' d w now (touch c' now st))"
proof (intro conjI impI allI)
  assume "m = NotJson \<or> m = JsonNull"
  then show "let st' = snd (on_message verify k m now st)
       in clients st' = clients st \<and> infos st' = infos st \<and>
          authenticatedClients st' = authenticatedClients st \<and>
          pollSubscriptions st' = pollSubscriptions st \<and>
          (\<forall>i. readyState (sockets st' i) = readyState (sockets st i)) \<and>
          sends (sockets st' k) = sends (sockets st k) @
            [(ErrorFrame ''Invalid JSON format'', \<not> send_fails (sockets st k))]"
    by (auto simp: on_message_def Let_def)
next
  assume u: "type_f d \<notin> {Some ''authenticate'', Some ''subscribe'', Some ''unsubscribe'', Some ''ping'',
                 Some ''getStats''}"
  have hm: "handleMessage verify c d k now st = ws_send k (ErrorFrame ''Unknown message type'') (touch c now st)"
    for c
    using u by (simp add: handleMessage_def Let_def)
  show "let c = id_c (infos st k); r = on_message verify k (JsonObject d) now st; st' = snd r
       in clients st' = clients st \<and> infos st' = infos (touch c now st) \<and>
          authenticatedClients st' = authenticatedClients st \<and>
          pollSubscriptions st' = pollSubscriptions st \<and>
          (\<forall>i. readyState (sockets st' i) = readyState (sockets st i)) \<and>
          (\<forall>i. i \<noteq> k \<longrightarrow> sends (sockets st' i) = sends (sockets st i)) \<and>
          (\<not> send_fails (sockets st k) \<longrightarrow> fst r = Returned \<and>
             sends (sockets st' k) = sends (sockets st k) @ [(ErrorFrame ''Unknown message type'', True)])"
    by (simp add: on_message_def Let_def hm)
next
  fix j assume r: "map_of (clients st) c' = Some j"
  have t: "lastActivity (infos (touch c' now st) j) = Some now"
    using r by (simp add: touch_info)
  have keep: "lastActivity (infos (snd (handleAuthentication verify c' tok w now s)) j) = lastActivity (infos s j)"
    for tok s
    by (simp add: handleAuthentication_def Let_def split: option.splits jwt_result.splits)
  show "lastActivity (infos (snd (handleMessage verify c' d w now st)) j) = Some now"
    using t by (simp add: handleMessage_def Let_def keep split: option.splits)
next
  fix j assume r: "map_of (clients st) c' = Some j"
  have "touch c' now (touch c' now st) = touch c' now st"
    using r by (simp add: touch_def)
  then show "handleMessage verify c' d w now st = handleMessage verify c' d w now (touch c' now st)"
    by (simp add: handleMessage_def Let_def)
qed

theorem protocol_error_no_mutation_witness:
  "(let st' = snd (on_message sample_verify 0 NotJson 9000 one_client)
    in clients st' = clients one_client \<and> infos st' = infos one_client \<and>
       pollSubscriptions st' = pollSubscriptions one_client \<and>
       last (sends (sockets st' 0)) = (ErrorFrame ''Invalid JSON format'', True)) \<and>
   (let st' = snd (on_message sample_verify 0
                (JsonObject \<lparr>type_f = Some ''shout'', pollId = None, token = None\<rparr>) 9000 one_client)
    in clients st' = clients one_client \<and> pollSubscriptions st' = pollSubscriptions one_client \<and>
       lastActivity (infos st' 0) = Some 9000 \<and> authenticated (infos st' 0) \<and>
       last (sends (sockets st' 0)) = (ErrorFrame ''Unknown message type'', True)) \<and>
   map_of (clients one_client) ''ars'' = Some 0 \<and>
   lastActivity (infos (snd (handleMessage sample_verify ''ars''
      \<lparr>type_f = Some ''ping'', pollId = None, token = None\<rparr> 0 9000 one_client)) 0) = Some 9000"
  using protocol_error_no_mutation [of NotJson sample_verify 0 9000 one_client
      "\<lparr>type_f = Some ''shout'', pollId = None, token = None\<rparr>" "''ars''" 0]
    protocol_error_no_mutation [of NotJson sample_verify 0 9000 one_client
      "\<lparr>type_f = Some ''ping'', pollId = None, token = None\<rparr>" "''ars''" 0]
  by (simp add: sample_defs eval_defs)

subsection \<open>The registry invariant\<close>

lemma registry_ok_entry:
  "registry_ok st \<Longrightarrow> map_of (clients st) c = Some j \<Longrightarrow> j < next_conn st \<and> ws (infos st j) = j \<and> id_c (infos st j) = c"
  by (auto simp: registry_ok_def dest!: map_of_SomeD)

lemma registry_ok_inj: "registry_ok st \<Longrightarrow> map_of (clients st) c = Some j \<Longrightarrow> map_of (clients st) c' = Some j \<Longrightarrow> c = c'"
  using registry_ok_entry by metis

lemma registry_ok_subset:
  "registry_ok st \<Longrightarrow> set (clients st') \<subseteq> set (clients st) \<Longrightarrow> next_conn st \<le> next_conn st' \<Longrightarrow>
   (\<And>j. ws (infos st' j) = ws (infos st j) \<and> id_c (infos st' j) = id_c (infos st j)) \<Longrightarrow> registry_ok st'"
  by (fastforce simp: registry_ok_def)

lemma set_delete_subset: "set (AList.delete k al) \<subseteq> set al"
  by (auto simp: AList.delete_eq)

lemma subscribers_delete_fields [simp]:
  "clients (subscribers_delete p x st) = clients st"
  "authenticatedClients (subscribers_delete p x st) = authenticatedClients st"
  "infos (subscribers_delete p x st) = infos st"
  "sockets (subscribers_delete p x st) = sockets st"
  "pingIntervals (subscribers_delete p x st) = pingIntervals st"
  "next_conn (subscribers_delete p x st) = next_conn st"
  by (simp_all add: subscribers_delete_def)

lemma subscribers_of_delete:
  "subscribers_of (subscribers_delete p x st) q =
     (if q = p then set_delete x (subscribers_of st p) else subscribers_of st q)"
  by (auto simp: subscribers_of_def subscribers_delete_def map_of_map_entry set_delete_def
      split: option.splits)

subsection \<open>The fan-out\<close>

text \<open>One iteration of the fan-out.\<close>

lemma broadcast_one_fst:
  "fst (broadcast_one p m x acc) =
     (case map_of (clients (fst acc)) x of
        None \<Rightarrow> subscribers_delete p x (fst acc)
      | Some j \<Rightarrow>
          if readyState (sockets (fst acc) (ws (infos (fst acc) j))) = OPEN then
            (if send_fails (sockets (fst acc) (ws (infos (fst acc) j)))
             then subscribers_delete p x ((snd (ws_send (ws (infos (fst acc) j)) m (fst acc)))
                    \<lparr>clients := AList.delete x (clients (fst acc))\<rparr>)
             else snd (ws_send (ws (infos (fst acc) j)) m (fst acc)))
          else subscribers_delete p x (fst acc))"
  by (cases acc) (simp add: broadcast_one_def Let_def split: option.splits)

lemma subscribers_of_ws_send [simp]: "subscribers_of (snd (ws_send w f st)) q = subscribers_of st q"
  by (simp add: subscribers_of_def)

lemma subscribers_of_clients_update [simp]: "subscribers_of (st\<lparr>clients := cs\<rparr>) q = subscribers_of st q"
  by (simp add: subscribers_of_def)

lemma broadcast_one_infos [simp]:
  "infos (fst (broadcast_one p m x acc)) = infos (fst acc)"
  "next_conn (fst (broadcast_one p m x acc)) = next_conn (fst acc)"
  "authenticatedClients (fst (broadcast_one p m x acc)) = authenticatedClients (fst acc)"
  "pingIntervals (fst (broadcast_one p m x acc)) = pingIntervals (fst acc)"
  by (simp_all add: broadcast_one_fst split: option.splits)

lemma broadcast_one_condition [simp]:
  "readyState (sockets (fst (broadcast_one p m x acc)) i) = readyState (sockets (fst acc) i)"
  "send_fails (sockets (fst (broadcast_one p m x acc)) i) = send_fails (sockets (fst acc) i)"
  by (simp_all add: broadcast_one_fst split: option.splits)

lemma broadcast_one_clients_subset:
  "set (clients (fst (broadcast_one p m x acc))) \<subseteq> set (clients (fst acc))"
  using set_delete_subset [of x "clients (fst acc)"]
  by (simp add: broadcast_one_fst split: option.splits)

lemma broadcast_one_clients_other:
  "y \<noteq> x \<Longrightarrow> map_of (clients (fst (broadcast_one p m x acc))) y = map_of (clients (fst acc)) y"
  by (simp add: broadcast_one_fst split: option.splits)

lemma broadcast_one_sends_other:
  assumes "\<And>j. map_of (clients (fst acc)) x = Some j \<Longrightarrow> i \<noteq> ws (infos (fst acc) j)"
  shows "sends (sockets (fst (broadcast_one p m x acc)) i) = sends (sockets (fst acc) i)"
  using assms by (auto simp: broadcast_one_fst split: option.splits)

lemma broadcast_one_sends_deliver:
  assumes "map_of (clients (fst acc)) x = Some j"
    "readyState (sockets (fst acc) (ws (infos (fst acc) j))) = OPEN"
    "\<not> send_fails (sockets (fst acc) (ws (infos (fst acc) j)))"
  shows "sends (sockets (fst (broadcast_one p m x acc)) (ws (infos (fst acc) j))) =
           sends (sockets (fst acc) (ws (infos (fst acc) j))) @ [(m, True)]"
  using assms by (simp add: broadcast_one_fst)

lemma broadcast_one_deliverable_other:
  "y \<noteq> x \<Longrightarrow> deliverable (fst (broadcast_one p m x acc)) y = deliverable (fst acc) y"
  by (simp add: deliverable_def broadcast_one_clients_other split: option.splits)

lemma broadcast_one_registry_ok: "registry_ok (fst acc) \<Longrightarrow> registry_ok (fst (broadcast_one p m x acc))"
  by (rule registry_ok_subset [of "fst acc"]) (simp_all add: broadcast_one_clients_subset)

lemma broadcast_one_subscribers_subset:
  "set (subscribers_of (fst (broadcast_one p m x acc)) q) \<subseteq> set (subscribers_of (fst acc) q)"
  by (auto simp: broadcast_one_fst subscribers_of_delete set_set_delete
      split: option.splits if_splits)

lemma broadcast_one_subscribers_removed:
  "\<not> deliverable (fst acc) x \<Longrightarrow> x \<notin> set (subscribers_of (fst (broadcast_one p m x acc)) p)"
  by (auto simp: broadcast_one_fst subscribers_of_delete set_set_delete deliverable_def
      split: option.splits if_splits)

lemma broadcast_one_subscribers_kept:
  "y \<noteq> x \<or> deliverable (fst acc) x \<Longrightarrow> y \<in> set (subscribers_of (fst acc) q) \<Longrightarrow>
     y \<in> set (subscribers_of (fst (broadcast_one p m x acc)) q)"
  by (auto simp: broadcast_one_fst subscribers_of_delete set_set_delete deliverable_def
      split: option.splits if_splits)

text \<open>The whole fan-out.\<close>

lemma broadcast_loop_condition [simp]:
  "readyState (sockets (fst (broadcast_loop p m xs acc)) i) = readyState (sockets (fst acc) i)"
  "send_fails (sockets (fst (broadcast_loop p m xs acc)) i) = send_fails (sockets (fst acc) i)"
  by (induction xs arbitrary: acc) simp_all

lemma broadcast_loop_infos [simp]:
  "infos (fst (broadcast_loop p m xs acc)) = infos (fst acc)"
  "next_conn (fst (broadcast_loop p m xs acc)) = next_conn (fst acc)"
  "authenticatedClients (fst (broadcast_loop p m xs acc)) = authenticatedClients (fst acc)"
  "pingIntervals (fst (broadcast_loop p m xs acc)) = pingIntervals (fst acc)"
  by (induction xs arbitrary: acc) simp_all

lemma broadcast_loop_clients_subset:
  "set (clients (fst (broadcast_loop p m xs acc))) \<subseteq> set (clients (fst acc))"
proof (induction xs arbitrary: acc)
  case Nil
  show ?case by simp
next
  case (Cons x xs)
  show ?case
    using Cons.IH [of "broadcast_one p m x acc"] broadcast_one_clients_subset [of p m x acc]
    by auto
qed

lemma broadcast_loop_clients_other:
  "y \<notin> set xs \<Longrightarrow> map_of (clients (fst (broadcast_loop p m xs acc))) y = map_of (clients (fst acc)) y"
  by (induction xs arbitrary: acc) (simp_all add: broadcast_one_clients_other)

lemma broadcast_loop_registry_ok: "registry_ok (fst acc) \<Longrightarrow> registry_ok (fst (broadcast_loop p m xs acc))"
  by (rule registry_ok_subset [of "fst acc"]) (simp_all add: broadcast_loop_clients_subset)

lemma broadcast_loop_subscribers_subset:
  "set (subscribers_of (fst (broadcast_loop p m xs acc)) q) \<subseteq> set (subscribers_of (fst acc) q)"
proof (induction xs arbitrary: acc)
  case Nil
  show ?case by simp
next
  case (Cons x xs)
  show ?case
    using Cons.IH [of "broadcast_one p m x acc"] broadcast_one_subscribers_subset [of p m x acc q]
    by auto
qed

lemma broadcast_loop_sends_other:
  assumes "\<And>x j. x \<in> set xs \<Longrightarrow> map_of (clients (fst acc)) x = Some j \<Longrightarrow> i \<noteq> ws (infos (fst acc) j)"
    and "distinct xs"
  shows "sends (sockets (fst (broadcast_loop p m xs acc)) i) = sends (sockets (fst acc) i)"
  using assms
proof (induction xs arbitrary: acc)
  case Nil
  show ?case by simp
next
  case (Cons x xs)
  let ?acc = "broadcast_one p m x acc"
  have 1: "sends (sockets (fst ?acc) i) = sends (sockets (fst acc) i)"
    using Cons.prems(1) [of x] by (intro broadcast_one_sends_other) simp
  have 2: "i \<noteq> ws (infos (fst ?acc) j)" if "y \<in> set xs" "map_of (clients (fst ?acc)) y = Some j" for y j
  proof -
    have "y \<noteq> x" using that(1) Cons.prems(2) by auto
    then have "map_of (clients (fst acc)) y = Some j"
      using that(2) by (simp add: broadcast_one_clients_other)
    then show ?thesis using Cons.prems(1) [of y j] that(1) by simp
  qed
  have "sends (sockets (fst (broadcast_loop p m xs ?acc)) i) = sends (sockets (fst ?acc) i)"
    using 2 Cons.prems(2) by (intro Cons.IH) auto
  then show ?case using 1 by simp
qed

lemma broadcast_loop_removed:
  assumes "x \<in> set xs" "\<not> deliverable (fst acc) x" "distinct xs"
  shows "x \<notin> set (subscribers_of (fst (broadcast_loop p m xs acc)) p)"
  using assms
proof (induction xs arbitrary: acc)
  case Nil
  then show ?case by simp
next
  case (Cons y ys)
  show ?case
  proof (cases "x = y")
    case True
    then have "x \<notin> set (subscribers_of (fst (broadcast_one p m y acc)) p)"
      using Cons.prems(2) by (simp add: broadcast_one_subscribers_removed)
    then show ?thesis
      using broadcast_loop_subscribers_subset [of p m ys "broadcast_one p m y acc" p] by auto
  next
    case False
    then have "\<not> deliverable (fst (broadcast_one p m y acc)) x"
      using Cons.prems(2) by (simp add: broadcast_one_deliverable_other)
    then show ?thesis
      using Cons.IH [of "broadcast_one p m y acc"] Cons.prems False by simp
  qed
qed

lemma broadcast_loop_kept:
  assumes "y \<in> set (subscribers_of (fst acc) q)" "y \<in> set xs \<longrightarrow> deliverable (fst acc) y" "distinct xs"
  shows "y \<in> set (subscribers_of (fst (broadcast_loop p m xs acc)) q)"
  using assms
proof (induction xs arbitrary: acc)
  case Nil
  then show ?case by simp
next
  case (Cons x xs)
  let ?acc = "broadcast_one p m x acc"
  have 1: "y \<in> set (subscribers_of (fst ?acc) q)"
    using Cons.prems(1,2) by (intro broadcast_one_subscribers_kept) auto
  have 2: "y \<in> set xs \<longrightarrow> deliverable (fst ?acc) y"
  proof
    assume yx: "y \<in> set xs"
    then have "y \<noteq> x" using Cons.prems(3) by auto
    then show "deliverable (fst ?acc) y"
      using Cons.prems(2) yx by (simp add: broadcast_one_deliverable_other)
  qed
  show ?case
    using Cons.IH [OF 1 2] Cons.prems(3) by simp
qed

lemma broadcast_loop_delivered:
  assumes "registry_ok (fst acc)" "x \<in> set xs" "distinct xs" "map_of (clients (fst acc)) x = Some j"
    "readyState (sockets (fst acc) j) = OPEN" "\<not> send_fails (sockets (fst acc) j)"
  shows "sends (sockets (fst (broadcast_loop p m xs acc)) j) = sends (sockets (fst acc) j) @ [(m, True)]"
  using assms
proof (induction xs arbitrary: acc)
  case Nil
  then show ?case by simp
next
  case (Cons y ys)
  let ?acc = "broadcast_one p m y acc"
  have wsj: "ws (infos (fst acc) j) = j"
    using registry_ok_entry [OF Cons.prems(1,4)] by simp
  show ?case
  proof (cases "x = y")
    case True
    have 1: "sends (sockets (fst ?acc) j) = sends (sockets (fst acc) j) @ [(m, True)]"
      using broadcast_one_sends_deliver [of acc y j p m] Cons.prems(4,5,6) True wsj by simp
    have 2: "j \<noteq> ws (infos (fst ?acc) k)" if "z \<in> set ys" "map_of (clients (fst ?acc)) z = Some k" for z k
    proof -
      have zy: "z \<noteq> y" using that(1) Cons.prems(3) by auto
      then have zk: "map_of (clients (fst acc)) z = Some k"
        using that(2) by (simp add: broadcast_one_clients_other)
      have "ws (infos (fst acc) k) = k"
        using registry_ok_entry [OF Cons.prems(1) zk] by simp
      moreover have "k \<noteq> j"
        using registry_ok_inj [OF Cons.prems(1) zk, of x] Cons.prems(4) zy True by auto
      ultimately show ?thesis by simp
    qed
    have "sends (sockets (fst (broadcast_loop p m ys ?acc)) j) = sends (sockets (fst ?acc) j)"
      using 2 Cons.prems(3) by (intro broadcast_loop_sends_other) auto
    then show ?thesis using 1 by simp
  next
    case False
    have 1: "sends (sockets (fst ?acc) j) = sends (sockets (fst acc) j)"
    proof (rule broadcast_one_sends_other)
      fix k assume yk: "map_of (clients (fst acc)) y = Some k"
      have "ws (infos (fst acc) k) = k"
        using registry_ok_entry [OF Cons.prems(1) yk] by simp
      moreover have "k \<noteq> j"
        using registry_ok_inj [OF Cons.prems(1) yk, of x] Cons.prems(4) False by auto
      ultimately show "j \<noteq> ws (infos (fst acc) k)" by simp
    qed
    have "sends (sockets (fst (broadcast_loop p m ys ?acc)) j) = sends (sockets (fst ?acc) j) @ [(m, True)]"
      using Cons.prems False
      by (intro Cons.IH) (auto simp: broadcast_one_registry_ok broadcast_one_clients_other)
    then show ?thesis using 1 by simp
  qed
qed

lemma three_subscribers_fields:
  "clients three_subscribers = [(''ars'', 0), (''brs'', 1), (''crs'', 2)]"
  "pollSubscriptions three_subscribers = [(''p1'', [''ars'', ''brs'', ''crs''])]"
  "next_conn three_subscribers = 3"
  by (simp_all add: three_subscribers_def sample_defs eval_defs)

lemma broadcastPollUpdate_snd:
  "map_of (pollSubscriptions st) p = Some subscribers \<Longrightarrow>
   snd (broadcastPollUpdate p pollData now st) =
     fst (broadcast_loop p (PollUpdate p pollData now) subscribers (st, 0, 0))"
  by (simp add: broadcastPollUpdate_def)

lemma broadcastPollUpdate_returns: "fst (broadcastPollUpdate p pollData now st) = Returned"
  by (simp add: broadcastPollUpdate_def split: option.splits)

text \<open>
  C1. A poll has the subscribers A, B and C; A and C are registered with open transports
  that accept a send, and the send to B fails (B is unregistered, or its transport is not
  open or throws). Then \<open>broadcastPollUpdate\<close> returns without an exception, hands the
  update to the transports of A and of C, and removes B from the poll's subscribers, while
  A and C stay subscribed.
\<close>

theorem partial_failure_isolation:
  assumes registry: "registry_ok st"
    and topic: "map_of (pollSubscriptions st) T = Some subscribers" "distinct subscribers"
      "set subscribers = {A, B, C}"
    and A: "map_of (clients st) A = Some a" "readyState (sockets st a) = OPEN" "\<not> send_fails (sockets st a)"
    and C: "map_of (clients st) C = Some c" "readyState (sockets st c) = OPEN" "\<not> send_fails (sockets st c)"
    and B: "map_of (clients st) B = None \<or>
      (\<exists>b. map_of (clients st) B = Some b \<and>
         (readyState (sockets st b) \<noteq> OPEN \<or> send_fails (sockets st b)))"
  shows "let r = broadcastPollUpdate T payload now st; st' = snd r
         in fst r = Returned \<and>
            sends (sockets st' a) = sends (sockets st a) @ [(PollUpdate T payload now, True)] \<and>
            sends (sockets st' c) = sends (sockets st c) @ [(PollUpdate T payload now, True)] \<and>
            B \<notin> set (subscribers_of st' T) \<and>
            A \<in> set (subscribers_of st' T) \<and> C \<in> set (subscribers_of st' T)"
proof -
  let ?m = "PollUpdate T payload now"
  let ?st' = "fst (broadcast_loop T ?m subscribers (st, 0, 0))"
  have st': "snd (broadcastPollUpdate T payload now st) = ?st'"
    using topic(1) by (rule broadcastPollUpdate_snd)
  have members: "A \<in> set subscribers" "B \<in> set subscribers" "C \<in> set subscribers"
    using topic(3) by simp_all
  have deliverA: "deliverable st A" and deliverC: "deliverable st C"
    using A C registry_ok_entry [OF registry A(1)] registry_ok_entry [OF registry C(1)] by (simp_all add: deliverable_def)
  have deadB: "\<not> deliverable st B"
    using B registry_ok_entry [OF registry, of B] by (auto simp: deliverable_def)
  have sub0: "subscribers_of st T = subscribers"
    using topic(1) by (simp add: subscribers_of_def)
  have 1: "sends (sockets ?st' a) = sends (sockets st a) @ [(?m, True)]"
    using broadcast_loop_delivered [of "(st, 0, 0)" A subscribers a T ?m] registry members topic(2) A
    by simp
  have 2: "sends (sockets ?st' c) = sends (sockets st c) @ [(?m, True)]"
    using broadcast_loop_delivered [of "(st, 0, 0)" C subscribers c T ?m] registry members topic(2) C
    by simp
  have 3: "B \<notin> set (subscribers_of ?st' T)"
    using broadcast_loop_removed [of B subscribers "(st, 0, 0)" T ?m] members topic(2) deadB by simp
  have 4: "A \<in> set (subscribers_of ?st' T)"
    using broadcast_loop_kept [of A "(st, 0, 0)" T subscribers T ?m] members topic(2) deliverA sub0
    by simp
  have 5: "C \<in> set (subscribers_of ?st' T)"
    using broadcast_loop_kept [of C "(st, 0, 0)" T subscribers T ?m] members topic(2) deliverC sub0
    by simp
  show ?thesis
    unfolding Let_def st' using broadcastPollUpdate_returns 1 2 3 4 5 by blast
qed

lemma three_subscribers_registry_ok: "registry_ok three_subscribers"
  by (simp add: registry_ok_def three_subscribers_def sample_defs eval_defs)

lemma three_subscribers_transports:
  "readyState (sockets three_subscribers 0) = OPEN" "\<not> send_fails (sockets three_subscribers 0)"
  "readyState (sockets three_subscribers 1) = CLOSING"
  "readyState (sockets three_subscribers 2) = OPEN" "\<not> send_fails (sockets three_subscribers 2)"
  by (simp_all add: three_subscribers_def sample_defs eval_defs)

theorem partial_failure_isolation_witness:
  "registry_ok three_subscribers \<and>
   map_of (pollSubscriptions three_subscribers) ''p1'' = Some [''ars'', ''brs'', ''crs''] \<and>
   map_of (clients three_subscribers) ''ars'' = Some 0 \<and>
   map_of (clients three_subscribers) ''brs'' = Some 1 \<and>
   map_of (clients three_subscribers) ''crs'' = Some 2 \<and>
   readyState (sockets three_subscribers 1) \<noteq> OPEN \<and>
   (let r = broadcastPollUpdate ''p1'' ''votes'' 4000 three_subscribers; st' = snd r
    in fst r = Returned \<and>
       sends (sockets st' 0) = sends (sockets three_subscribers 0) @ [(PollUpdate ''p1'' ''votes'' 4000, True)] \<and>
       sends (sockets st' 2) = sends (sockets three_subscribers 2) @ [(PollUpdate ''p1'' ''votes'' 4000, True)] \<and>
       ''brs'' \<notin> set (subscribers_of st' ''p1'') \<and>
       ''ars'' \<in> set (subscribers_of st' ''p1'') \<and> ''crs'' \<in> set (subscribers_of st' ''p1''))"
  using partial_failure_isolation [of three_subscribers "''p1''" "[''ars'', ''brs'', ''crs'']"
      "''ars''" "''brs''" "''crs''" 0 2 "''votes''" 4000]
    three_subscribers_registry_ok three_subscribers_transports
  by (simp add: three_subscribers_fields insert_commute)

subsection \<open>What the fan-out leaves behind\<close>

text \<open>
  C3. The fan-out deletes a dead subscriber from the poll's set without the emptiness check
  that \<open>unsubscribeFromPoll\<close> and \<open>removeFromPollSubscriptions\<close> make: after a publish
  to a poll whose only subscriber has a closing transport, the poll maps to the empty set.
\<close>

theorem broadcast_leaves_empty_topic:
  "pollSubscriptions lone_dead_subscriber = [(''p1'', [''ars''])] \<and>
   pollSubscriptions (snd (broadcastPollUpdate ''p1'' ''votes'' 4000 lone_dead_subscriber)) = [(''p1'', [])] \<and>
   pollSubscriptions (unsubscribeFromPoll ''ars'' ''p1'' lone_dead_subscriber) = [] \<and>
   pollSubscriptions (removeFromPollSubscriptions ''ars'' lone_dead_subscriber) = []"
  by (simp add: lone_dead_subscriber_def sample_defs eval_defs)

text \<open>
  C2. When a send throws, the fan-out deletes the client from \<open>clients\<close> and from the set
  of the poll being published only: the client stays subscribed to its other polls and
  keeps its entry in \<open>authenticatedClients\<close>, all of which the close handler clears.
\<close>

theorem broadcast_failure_partial_cleanup:
  "clients failing_subscriber = [(''ars'', 0)] \<and>
   pollSubscriptions failing_subscriber = [(''p1'', [''ars'']), (''p2'', [''ars''])] \<and>
   (let st' = snd (broadcastPollUpdate ''p1'' ''votes'' 4000 failing_subscriber)
    in last (sends (sockets st' 0)) = (PollUpdate ''p1'' ''votes'' 4000, False) \<and>
       clients st' = [] \<and>
       pollSubscriptions st' = [(''p1'', []), (''p2'', [''ars''])] \<and>
       map fst (authenticatedClients st') = [''ars'']) \<and>
   (let st' = on_close 0 failing_subscriber
    in clients st' = [] \<and> pollSubscriptions st' = [] \<and> authenticatedClients st' = [])"
  by (simp add: failing_subscriber_def sample_defs eval_defs)

subsection \<open>Steps keep the registry invariant\<close>

lemma set_update_subset: "set (AList.update k v al) \<subseteq> insert (k, v) (set al)"
  by (induction al) auto

lemma ws_close_fields [simp]:
  "clients (ws_close w st) = clients st"
  "pollSubscriptions (ws_close w st) = pollSubscriptions st"
  "authenticatedClients (ws_close w st) = authenticatedClients st"
  "infos (ws_close w st) = infos st"
  "pingIntervals (ws_close w st) = pingIntervals st"
  "next_conn (ws_close w st) = next_conn st"
  "sends (sockets (ws_close w st) i) = sends (sockets st i)"
  "send_fails (sockets (ws_close w st) i) = send_fails (sockets st i)"
  "readyState (sockets (ws_close w st) i) = (if i = w then CLOSING else readyState (sockets st i))"
  by (simp_all add: ws_close_def)

lemma evict_fields [simp]:
  "clients (evict c j st) = AList.delete c (clients st)"
  "authenticatedClients (evict c j st) = AList.delete c (authenticatedClients st)"
  "pollSubscriptions (evict c j st) = remove_entries c (pollSubscriptions st)"
  "infos (evict c j st) = infos st"
  "pingIntervals (evict c j st) = pingIntervals st"
  "next_conn (evict c j st) = next_conn st"
  "sends (sockets (evict c j st) i) = sends (sockets st i)"
  "send_fails (sockets (evict c j st) i) = send_fails (sockets st i)"
  by (simp_all add: evict_def Let_def removeFromPollSubscriptions_def)

lemma evict_readyState:
  "readyState (sockets (evict c j st) i) =
     (if i = ws (infos st j) \<and> readyState (sockets st i) = OPEN then CLOSING
      else readyState (sockets st i))"
  by (auto simp: evict_def Let_def)

lemma cleanup_loop_fields [simp]:
  "infos (cleanup_loop now es st) = infos st"
  "pingIntervals (cleanup_loop now es st) = pingIntervals st"
  "next_conn (cleanup_loop now es st) = next_conn st"
  "sends (sockets (cleanup_loop now es st) i) = sends (sockets st i)"
  "send_fails (sockets (cleanup_loop now es st) i) = send_fails (sockets st i)"
  by (induction now es st rule: cleanup_loop.induct; simp)+

lemma cleanup_loop_clients_subset: "set (clients (cleanup_loop now es st)) \<subseteq> set (clients st)"
proof (induction now es st rule: cleanup_loop.induct)
  case (1 now st)
  show ?case by simp
next
  case (2 now clientId j rest st)
  then show ?case
    using set_delete_subset [of clientId "clients st"] by (auto split: if_splits)
qed

lemma on_close_fields [simp]:
  "clients (on_close k st) = AList.delete (id_c (infos st k)) (clients st)"
  "authenticatedClients (on_close k st) = AList.delete (id_c (infos st k)) (authenticatedClients st)"
  "pollSubscriptions (on_close k st) = remove_entries (id_c (infos st k)) (pollSubscriptions st)"
  "infos (on_close k st) = infos st"
  "sockets (on_close k st) = sockets st"
  "pingIntervals (on_close k st) = pingIntervals st"
  "next_conn (on_close k st) = next_conn st"
  by (simp_all add: on_close_def Let_def removeFromPollSubscriptions_def)

lemma transport_change_fields [simp]:
  "clients (transport_change k rs fl st) = clients st"
  "authenticatedClients (transport_change k rs fl st) = authenticatedClients st"
  "pollSubscriptions (transport_change k rs fl st) = pollSubscriptions st"
  "infos (transport_change k rs fl st) = infos st"
  "pingIntervals (transport_change k rs fl st) = pingIntervals st"
  "next_conn (transport_change k rs fl st) = next_conn st"
  "sends (sockets (transport_change k rs fl st) i) = sends (sockets st i)"
  by (simp_all add: transport_change_def)

lemma on_pong_fields [simp]:
  "clients (on_pong k now st) = clients st"
  "authenticatedClients (on_pong k now st) = authenticatedClients st"
  "pollSubscriptions (on_pong k now st) = pollSubscriptions st"
  "sockets (on_pong k now st) = sockets st"
  "pingIntervals (on_pong k now st) = pingIntervals st"
  "next_conn (on_pong k now st) = next_conn st"
  "ws (infos (on_pong k now st) j) = ws (infos st j)"
  "id_c (infos (on_pong k now st) j) = id_c (infos st j)"
  by (simp_all add: on_pong_def)

lemma ping_tick_fields [simp]:
  "clients (ping_tick k now st) = clients st"
  "authenticatedClients (ping_tick k now st) = authenticatedClients st"
  "pollSubscriptions (ping_tick k now st) = pollSubscriptions st"
  "sockets (ping_tick k now st) = sockets st"
  "next_conn (ping_tick k now st) = next_conn st"
  "ws (infos (ping_tick k now st) j) = ws (infos st j)"
  "id_c (infos (ping_tick k now st) j) = id_c (infos st j)"
  by (simp_all add: ping_tick_def)

lemma touch_ids [simp]:
  "ws (infos (touch c now st) j) = ws (infos st j)"
  "id_c (infos (touch c now st) j) = id_c (infos st j)"
  by (simp_all add: touch_info)

lemma handleAuthentication_ids [simp]:
  "ws (infos (snd (handleAuthentication verify c tok w now st)) j) = ws (infos st j)"
  "id_c (infos (snd (handleAuthentication verify c tok w now st)) j) = id_c (infos st j)"
  by (simp_all add: handleAuthentication_def Let_def split: option.splits jwt_result.splits)

lemma handleMessage_ids [simp]:
  "ws (infos (snd (handleMessage verify c d w now st)) j) = ws (infos st j)"
  "id_c (infos (snd (handleMessage verify c d w now st)) j) = id_c (infos st j)"
  by (simp_all add: handleMessage_def Let_def split: option.splits)

lemma on_message_fields [simp]:
  "clients (snd (on_message verify k m now st)) = clients st"
  "next_conn (snd (on_message verify k m now st)) = next_conn st"
  "ws (infos (snd (on_message verify k m now st)) j) = ws (infos st j)"
  "id_c (infos (snd (on_message verify k m now st)) j) = id_c (infos st j)"
  by (simp_all add: on_message_def Let_def split: raw.splits)

lemma on_connection_fields [simp]:
  "clients (snd (on_connection a b r t st)) = AList.update (generateClientId r t) (next_conn st) (clients st)"
  "next_conn (snd (on_connection a b r t st)) = Suc (next_conn st)"
  "pollSubscriptions (snd (on_connection a b r t st)) = pollSubscriptions st"
  "authenticatedClients (snd (on_connection a b r t st)) = authenticatedClients st"
  "ws (infos (snd (on_connection a b r t st)) j) = (if j = next_conn st then j else ws (infos st j))"
  "id_c (infos (snd (on_connection a b r t st)) j) =
     (if j = next_conn st then generateClientId r t else id_c (infos st j))"
  by (simp_all add: on_connection_def Let_def)

lemma broadcastPollUpdate_fields [simp]:
  "infos (snd (broadcastPollUpdate p d t st)) = infos st"
  "next_conn (snd (broadcastPollUpdate p d t st)) = next_conn st"
  "authenticatedClients (snd (broadcastPollUpdate p d t st)) = authenticatedClients st"
  "pingIntervals (snd (broadcastPollUpdate p d t st)) = pingIntervals st"
  by (simp_all add: broadcastPollUpdate_def split: option.splits)

lemma broadcastPollUpdate_clients_subset:
  "set (clients (snd (broadcastPollUpdate p d t st))) \<subseteq> set (clients st)"
  using broadcast_loop_clients_subset [of p _ _ "(st, 0, 0)"]
  by (simp add: broadcastPollUpdate_def split: option.splits)

lemma step_next_conn: "next_conn st \<le> next_conn (step verify e st)"
  by (cases e) (simp_all add: cleanupInactiveConnections_def)

lemma step_ids:
  "j < next_conn st \<Longrightarrow>
     ws (infos (step verify e st) j) = ws (infos st j) \<and> id_c (infos (step verify e st) j) = id_c (infos st j)"
  by (cases e) (simp_all add: cleanupInactiveConnections_def)

lemma step_clients:
  "(c, j) \<in> set (clients (step verify e st)) \<Longrightarrow>
     (c, j) \<in> set (clients st) \<or>
     (j = next_conn st \<and> (\<exists>a b r t. e = Connection a b r t \<and> c = generateClientId r t))"
proof (cases e)
  case (Connection a b r t)
  assume "(c, j) \<in> set (clients (step verify e st))"
  then show ?thesis
    using Connection set_update_subset [of "generateClientId r t" "next_conn st" "clients st"] by auto
next
  case (Close k)
  assume "(c, j) \<in> set (clients (step verify e st))"
  then show ?thesis
    using Close set_delete_subset [of _ "clients st"] by (auto split: if_splits)
next
  case (Broadcast p d t)
  assume "(c, j) \<in> set (clients (step verify e st))"
  then show ?thesis
    using Broadcast broadcastPollUpdate_clients_subset [of p d t st] by auto
next
  case (Cleanup now)
  assume "(c, j) \<in> set (clients (step verify e st))"
  then show ?thesis
    using Cleanup cleanup_loop_clients_subset [of now "clients st" st]
    by (auto simp: cleanupInactiveConnections_def)
qed (auto split: if_splits)

lemma registry_ok_step: "registry_ok st \<Longrightarrow> registry_ok (step verify e st)"
  unfolding registry_ok_def
proof (intro ballI, clarify)
  fix c j
  assume w: "\<forall>(c, j) \<in> set (clients st). j < next_conn st \<and> ws (infos st j) = j \<and> id_c (infos st j) = c"
    and m: "(c, j) \<in> set (clients (step verify e st))"
  from step_clients [OF m] show "j < next_conn (step verify e st) \<and> ws (infos (step verify e st) j) = j \<and>
     id_c (infos (step verify e st) j) = c"
  proof
    assume old: "(c, j) \<in> set (clients st)"
    then have "j < next_conn st \<and> ws (infos st j) = j \<and> id_c (infos st j) = c"
      using w by auto
    then show ?thesis
      using step_ids [of j st verify e] step_next_conn [of st verify e] by auto
  next
    assume "j = next_conn st \<and> (\<exists>a b r t. e = Connection a b r t \<and> c = generateClientId r t)"
    then show ?thesis by auto
  qed
qed

lemma registry_ok_init: "registry_ok init"
  by (simp add: registry_ok_def init_def)

lemma registry_ok_run: "registry_ok st \<Longrightarrow> registry_ok (run verify es st)"
  by (induction es arbitrary: st) (simp_all add: registry_ok_step)

subsection \<open>Removal of a connection\<close>

lemma remove_entries_origin:
  "(q, s) \<in> set (remove_entries c ps) \<Longrightarrow> \<exists>s0. (q, s0) \<in> set ps \<and> s = set_delete c s0"
  by (induction c ps rule: remove_entries.induct) (auto split: if_splits)

lemma remove_entries_nonempty: "(q, s) \<in> set (remove_entries c ps) \<Longrightarrow> s \<noteq> []"
  by (induction c ps rule: remove_entries.induct) (auto split: if_splits)

lemma sub_free_remove_entries_same: "sub_free c (st\<lparr>pollSubscriptions := remove_entries c ps\<rparr>)"
  by (auto simp: sub_free_def set_set_delete dest!: remove_entries_origin)

lemma sub_free_remove_entries_other:
  "sub_free x st \<Longrightarrow> pollSubscriptions st' = remove_entries c (pollSubscriptions st) \<Longrightarrow> sub_free x st'"
  by (fastforce simp: sub_free_def set_set_delete dest!: remove_entries_origin)

lemma sub_free_evict_same: "sub_free c (evict c j st)"
  by (auto simp: sub_free_def set_set_delete dest!: remove_entries_origin)

lemma sub_free_on_close: "sub_free (id_c (infos st k)) (on_close k st)"
  by (auto simp: sub_free_def set_set_delete dest!: remove_entries_origin)

lemma cleanup_loop_auth_subset:
  "set (authenticatedClients (cleanup_loop now es st)) \<subseteq> set (authenticatedClients st)"
proof (induction now es st rule: cleanup_loop.induct)
  case (1 now st)
  show ?case by simp
next
  case (2 now clientId j rest st)
  then show ?case
    using set_delete_subset [of clientId "authenticatedClients st"] by (auto split: if_splits)
qed

lemma cleanup_loop_sub_free: "sub_free x st \<Longrightarrow> sub_free x (cleanup_loop now es st)"
proof (induction now es st rule: cleanup_loop.induct)
  case (1 now st)
  then show ?case by simp
next
  case (2 now clientId j rest st)
  have "sub_free x (evict clientId j st)"
    using "2.prems" by (rule sub_free_remove_entries_other) simp
  then show ?case
    using 2 by simp
qed

lemma cleanup_loop_not_open:
  "readyState (sockets st i) \<noteq> OPEN \<Longrightarrow> readyState (sockets (cleanup_loop now es st) i) \<noteq> OPEN"
proof (induction now es st rule: cleanup_loop.induct)
  case (1 now st)
  then show ?case by simp
next
  case (2 now clientId j rest st)
  have "readyState (sockets (evict clientId j st) i) \<noteq> OPEN"
    using "2.prems" by (simp add: evict_readyState)
  then show ?case
    using 2 by simp
qed

lemma cleanup_loop_evicts:
  assumes "(c, k) \<in> set es" "now - last_seen (infos st k) > inactivityThreshold"
  shows "c \<notin> fst ` set (clients (cleanup_loop now es st)) \<and>
         c \<notin> fst ` set (authenticatedClients (cleanup_loop now es st)) \<and>
         sub_free c (cleanup_loop now es st) \<and>
         readyState (sockets (cleanup_loop now es st) (ws (infos st k))) \<noteq> OPEN"
  using assms
proof (induction now es st rule: cleanup_loop.induct)
  case (1 now st)
  then show ?case by simp
next
  case (2 now clientId j rest st)
  show ?case
  proof (cases "(c, k) = (clientId, j)")
    case True
    let ?st1 = "evict c k st"
    have a: "c \<notin> fst ` set (clients ?st1)" "c \<notin> fst ` set (authenticatedClients ?st1)"
      by (simp_all add: delete_notin_dom)
    have b: "sub_free c ?st1" by (rule sub_free_evict_same)
    have d: "readyState (sockets ?st1 (ws (infos st k))) \<noteq> OPEN"
      by (simp add: evict_readyState)
    have "c \<notin> fst ` set (clients (cleanup_loop now rest ?st1))"
      using a(1) cleanup_loop_clients_subset [of now rest ?st1] by auto
    moreover have "c \<notin> fst ` set (authenticatedClients (cleanup_loop now rest ?st1))"
      using a(2) cleanup_loop_auth_subset [of now rest ?st1] by auto
    moreover have "sub_free c (cleanup_loop now rest ?st1)"
      using b by (rule cleanup_loop_sub_free)
    moreover have "readyState (sockets (cleanup_loop now rest ?st1) (ws (infos st k))) \<noteq> OPEN"
      using d by (rule cleanup_loop_not_open)
    ultimately show ?thesis
      using True "2.prems"(2) by simp
  next
    case False
    then have "(c, k) \<in> set rest" using "2.prems"(1) by auto
    then show ?thesis
      using 2 by (cases "now - last_seen (infos st j) > inactivityThreshold") simp_all
  qed
qed

lemma registry_ok_unreferenced:
  assumes "registry_ok st" "set (clients st') \<subseteq> set (clients st)" "c \<notin> fst ` set (clients st')"
    "id_c (infos st k) = c"
  shows "k \<notin> snd ` set (clients st')"
proof
  assume "k \<in> snd ` set (clients st')"
  then obtain c' where m: "(c', k) \<in> set (clients st')" by force
  then have "(c', k) \<in> set (clients st)" using assms(2) by auto
  then have "c' = c" using assms(1,4) by (auto simp: registry_ok_def)
  then show False using m assms(3) by force
qed

text \<open>A connection that no registry entry refers to stays so, and no fan-out sends to it.\<close>

lemma unreferenced_step:
  assumes "k < next_conn st" "k \<notin> snd ` set (clients st)"
  shows "k < next_conn (step verify e st) \<and> k \<notin> snd ` set (clients (step verify e st))"
proof
  show "k < next_conn (step verify e st)"
    using assms(1) step_next_conn [of st verify e] by simp
  show "k \<notin> snd ` set (clients (step verify e st))"
  proof
    assume "k \<in> snd ` set (clients (step verify e st))"
    then obtain c where "(c, k) \<in> set (clients (step verify e st))" by force
    from step_clients [OF this] show False
      using assms by force
  qed
qed

lemma unreferenced_run:
  "k < next_conn st \<Longrightarrow> k \<notin> snd ` set (clients st) \<Longrightarrow>
     k < next_conn (run verify es st) \<and> k \<notin> snd ` set (clients (run verify es st))"
  by (induction es arbitrary: st) (simp_all add: unreferenced_step)

lemma broadcast_loop_sends_unreferenced:
  assumes "\<forall>(x, j) \<in> set (clients (fst acc)). i \<noteq> ws (infos (fst acc) j)"
  shows "sends (sockets (fst (broadcast_loop p m xs acc)) i) = sends (sockets (fst acc) i)"
  using assms
proof (induction xs arbitrary: acc)
  case Nil
  show ?case by simp
next
  case (Cons x xs)
  let ?acc = "broadcast_one p m x acc"
  have 1: "sends (sockets (fst ?acc) i) = sends (sockets (fst acc) i)"
    using Cons.prems by (intro broadcast_one_sends_other) (auto dest!: map_of_SomeD)
  have 2: "\<forall>(x, j) \<in> set (clients (fst ?acc)). i \<noteq> ws (infos (fst ?acc) j)"
    using Cons.prems broadcast_one_clients_subset [of p m x acc] by auto
  show ?case
    using Cons.IH [OF 2] 1 by simp
qed

lemma broadcast_skips_unreferenced:
  assumes "registry_ok st" "k \<notin> snd ` set (clients st)"
  shows "sends (sockets (step verify (Broadcast p d t) st) k) = sends (sockets st k)"
proof (cases "map_of (pollSubscriptions st) p")
  case None
  then show ?thesis by (simp add: broadcastPollUpdate_def)
next
  case (Some subscribers)
  have "\<forall>(x, j) \<in> set (clients st). k \<noteq> ws (infos st j)"
    using assms by (force simp: registry_ok_def)
  then show ?thesis
    using Some broadcast_loop_sends_unreferenced [of "(st, 0, 0)" k p _ subscribers]
    by (simp add: broadcastPollUpdate_def)
qed

lemma never_published_to:
  assumes "registry_ok st" "k < next_conn st" "k \<notin> snd ` set (clients st)"
  shows "sends (sockets (step verify (Broadcast p d t) (run verify es st)) k) =
         sends (sockets (run verify es st) k)"
  using assms registry_ok_run [of st verify es] unreferenced_run [of k st verify es]
  by (intro broadcast_skips_unreferenced) simp_all

text \<open>
  C4. When connection \<open>k\<close> closes, or the sweeper evicts it, its id is at once absent from
  \<open>clients\<close>, from \<open>authenticatedClients\<close> and from every subscriber set, no registry
  entry refers to it, and whatever events follow, no later publish calls \<open>send\<close> on its
  transport.
\<close>

theorem disconnect_cleanup:
  assumes registry: "registry_ok st" and allocated: "k < next_conn st"
  shows "(let c = id_c (infos st k); st' = step verify (Close k) st
          in map_of (clients st') c = None \<and> c \<notin> fst ` set (authenticatedClients st') \<and>
             sub_free c st' \<and> k \<notin> snd ` set (clients st') \<and>
             (\<forall>es p d t. sends (sockets (step verify (Broadcast p d t) (run verify es st')) k) =
                          sends (sockets (run verify es st') k))) \<and>
         (\<forall>c. (c, k) \<in> set (clients st) \<and> now - last_seen (infos st k) > inactivityThreshold \<longrightarrow>
            (let st' = step verify (Cleanup now) st
             in map_of (clients st') c = None \<and> c \<notin> fst ` set (authenticatedClients st') \<and>
             sub_free c st' \<and> k \<notin> snd ` set (clients st') \<and>
                (\<forall>es p d t. sends (sockets (step verify (Broadcast p d t) (run verify es st')) k) =
                             sends (sockets (run verify es st') k))))"
proof (intro conjI allI impI)
  let ?c = "id_c (infos st k)"
  let ?st' = "step verify (Close k) st"
  have st': "?st' = on_close k (transport_change k CLOSED (send_fails (sockets st k)) st)"
    using allocated by simp
  have 1: "?c \<notin> fst ` set (clients ?st')"
    using allocated by (simp add: delete_notin_dom)
  have au: "?c \<notin> fst ` set (authenticatedClients ?st')"
    using allocated by (simp add: delete_notin_dom)
  have 2: "sub_free ?c ?st'"
    using allocated sub_free_on_close [of "transport_change k CLOSED (send_fails (sockets st k)) st" k]
    by simp
  have sub: "set (clients ?st') \<subseteq> set (clients st)"
    using allocated by (simp add: set_delete_subset)
  have 3: "k \<notin> snd ` set (clients ?st')"
    using registry sub 1 by (rule registry_ok_unreferenced) simp
  have w: "registry_ok ?st'" using registry by (rule registry_ok_step)
  have n: "k < next_conn ?st'" using allocated by simp
  show "let c = id_c (infos st k); st' = step verify (Close k) st
        in map_of (clients st') c = None \<and> c \<notin> fst ` set (authenticatedClients st') \<and>
             sub_free c st' \<and> k \<notin> snd ` set (clients st') \<and>
           (\<forall>es p d t. sends (sockets (step verify (Broadcast p d t) (run verify es st')) k) =
                        sends (sockets (run verify es st') k))"
    unfolding Let_def using 1 au 2 3 never_published_to [OF w n 3]
    by (simp add: map_of_eq_None_iff)
next
  fix c
  assume h: "(c, k) \<in> set (clients st) \<and> now - last_seen (infos st k) > inactivityThreshold"
  let ?st' = "step verify (Cleanup now) st"
  have st': "?st' = cleanup_loop now (clients st) st"
    by (simp add: cleanupInactiveConnections_def)
  from h have e: "c \<notin> fst ` set (clients ?st')" "sub_free c ?st'"
    "c \<notin> fst ` set (authenticatedClients ?st')"
    using cleanup_loop_evicts [of c k "clients st" now st]
    by (simp_all add: cleanupInactiveConnections_def)
  have sub: "set (clients ?st') \<subseteq> set (clients st)"
    by (simp add: cleanupInactiveConnections_def cleanup_loop_clients_subset)
  have idc: "id_c (infos st k) = c"
    using registry h by (auto simp: registry_ok_def)
  have 3: "k \<notin> snd ` set (clients ?st')"
    using registry sub e(1) idc by (rule registry_ok_unreferenced)
  have w: "registry_ok ?st'" using registry by (rule registry_ok_step)
  have n: "k < next_conn ?st'" using allocated by (simp add: cleanupInactiveConnections_def)
  show "let st' = step verify (Cleanup now) st
        in map_of (clients st') c = None \<and> c \<notin> fst ` set (authenticatedClients st') \<and>
             sub_free c st' \<and> k \<notin> snd ` set (clients st') \<and>
           (\<forall>es p d t. sends (sockets (step verify (Broadcast p d t) (run verify es st')) k) =
                        sends (sockets (run verify es st') k))"
    unfolding Let_def using e 3 never_published_to [OF w n 3]
    by (simp add: map_of_eq_None_iff)
qed

lemma subscribed_client_fields:
  "clients subscribed_client = [(''ars'', 0)]"
  "pollSubscriptions subscribed_client = [(''p1'', [''ars''])]"
  "next_conn subscribed_client = 1"
  "id_c (infos subscribed_client 0) = ''ars''"
  "last_seen (infos subscribed_client 0) = 3000"
  by (simp_all add: subscribed_client_def sample_defs eval_defs)

lemma subscribed_client_registry_ok: "registry_ok subscribed_client"
  by (simp add: registry_ok_def subscribed_client_def sample_defs eval_defs)

theorem disconnect_cleanup_witness:
  "registry_ok subscribed_client \<and> 0 < next_conn subscribed_client \<and>
   (''ars'', 0) \<in> set (clients subscribed_client) \<and>
   400000 - last_seen (infos subscribed_client 0) > inactivityThreshold \<and>
   (let st' = step sample_verify (Close 0) subscribed_client
    in map_of (clients st') ''ars'' = None \<and> sub_free ''ars'' st' \<and>
       (\<forall>es p d t. sends (sockets (step sample_verify (Broadcast p d t) (run sample_verify es st')) 0) =
                    sends (sockets (run sample_verify es st') 0))) \<and>
   (let st' = step sample_verify (Cleanup 400000) subscribed_client
    in map_of (clients st') ''ars'' = None \<and> sub_free ''ars'' st' \<and>
       (\<forall>es p d t. sends (sockets (step sample_verify (Broadcast p d t) (run sample_verify es st')) 0) =
                    sends (sockets (run sample_verify es st') 0)))"
proof -
  have h: "registry_ok subscribed_client" "0 < next_conn subscribed_client"
    "(''ars'', 0) \<in> set (clients subscribed_client)"
    "400000 - last_seen (infos subscribed_client 0) > inactivityThreshold"
    by (simp_all add: subscribed_client_registry_ok subscribed_client_fields inactivityThreshold_def)
  show ?thesis
    using h disconnect_cleanup [of subscribed_client 0 sample_verify 400000]
    unfolding Let_def by (simp add: subscribed_client_fields)
qed

subsection \<open>The sweeper\<close>

text \<open>
  C7, as stated, fails: a connection that sends no frame and no pong is still registered
  after the sweep at 480000 ms, more than the threshold plus one sweep period after it was
  accepted, because the 30-second timer stamps \<open>lastPing\<close> whenever it sends a ping on an
  open transport.
\<close>

theorem silent_connection_survives_sweeps:
  "filter (inbound 0) silent_run = [] \<and>
   connectedAt (infos (run sample_verify silent_run init) 0) = 0 \<and>
   last silent_run = Cleanup 480000 \<and>
   480000 - 0 > inactivityThreshold + 2 * 60 * 1000 \<and>
   clients (run sample_verify silent_run init) = [(''a0'', 0)] \<and>
   readyState (sockets (run sample_verify silent_run init) 0) = OPEN"
  by (simp add: silent_run_def sample_defs eval_defs)

text \<open>
  C7, amended. A registered connection whose last-seen time (\<open>lastActivity\<close> once a frame
  has been handled, \<open>lastPing\<close> otherwise) lies more than the threshold before a sweep
  is removed by that sweep from \<open>clients\<close>, \<open>authenticatedClients\<close> and every subscriber
  set, and its transport is no longer open.
\<close>

theorem sweeper_evicts_stale:
  assumes registry: "registry_ok st" and registered: "(c, k) \<in> set (clients st)"
    and stale: "now - last_seen (infos st k) > inactivityThreshold"
  shows "let st' = cleanupInactiveConnections now st
         in map_of (clients st') c = None \<and> c \<notin> fst ` set (authenticatedClients st') \<and>
            sub_free c st' \<and> k \<notin> snd ` set (clients st') \<and> readyState (sockets st' k) \<noteq> OPEN"
proof -
  let ?st' = "cleanup_loop now (clients st) st"
  have wsk: "ws (infos st k) = k" and idc: "id_c (infos st k) = c"
    using registry registered by (auto simp: registry_ok_def)
  have e: "c \<notin> fst ` set (clients ?st')" "c \<notin> fst ` set (authenticatedClients ?st')"
    "sub_free c ?st'" "readyState (sockets ?st' k) \<noteq> OPEN"
    using cleanup_loop_evicts [OF registered stale] wsk by simp_all
  have "k \<notin> snd ` set (clients ?st')"
    using registry cleanup_loop_clients_subset e(1) idc by (rule registry_ok_unreferenced)
  then show ?thesis
    using e by (simp add: cleanupInactiveConnections_def Let_def map_of_eq_None_iff)
qed

theorem sweeper_evicts_stale_witness:
  "registry_ok subscribed_client \<and> (''ars'', 0) \<in> set (clients subscribed_client) \<and>
   303001 - last_seen (infos subscribed_client 0) > inactivityThreshold \<and>
   (let st' = cleanupInactiveConnections 303001 subscribed_client
    in clients st' = [] \<and> authenticatedClients st' = [] \<and> pollSubscriptions st' = [] \<and>
       readyState (sockets st' 0) = CLOSING) \<and>
   clients (cleanupInactiveConnections 303000 subscribed_client) = [(''ars'', 0)]"
proof -
  have h: "registry_ok subscribed_client" "(''ars'', 0) \<in> set (clients subscribed_client)"
    "303001 - last_seen (infos subscribed_client 0) > inactivityThreshold"
    by (simp_all add: subscribed_client_registry_ok subscribed_client_fields inactivityThreshold_def)
  have "clients (cleanupInactiveConnections 303001 subscribed_client) = [] \<and>
        authenticatedClients (cleanupInactiveConnections 303001 subscribed_client) = [] \<and>
        pollSubscriptions (cleanupInactiveConnections 303001 subscribed_client) = [] \<and>
        readyState (sockets (cleanupInactiveConnections 303001 subscribed_client) 0) = CLOSING \<and>
        clients (cleanupInactiveConnections 303000 subscribed_client) = [(''ars'', 0)]"
    by (simp add: subscribed_client_def sample_defs eval_defs)
  then show ?thesis
    using h sweeper_evicts_stale [of subscribed_client "''ars''" 0 303001]
    by (simp add: Let_def)
qed

subsection \<open>Client ids\<close>

lemma update_fresh: "k \<notin> fst ` set al \<Longrightarrow> AList.update k v al = al @ [(k, v)]"
  by (induction al) auto

lemma run_next_conn: "next_conn st \<le> next_conn (run verify es st)"
proof (induction es arbitrary: st)
  case Nil
  show ?case by simp
next
  case (Cons e es)
  show ?case
    using Cons.IH [of "step verify e st"] step_next_conn [of st verify e] by simp
qed

lemma run_ids:
  "j < next_conn st \<Longrightarrow> id_c (infos (run verify es st) j) = id_c (infos st j)"
proof (induction es arbitrary: st)
  case Nil
  show ?case by simp
next
  case (Cons e es)
  have "j < next_conn (step verify e st)"
    using Cons.prems step_next_conn [of st verify e] by simp
  then show ?case
    using Cons.IH [of "step verify e st"] step_ids [OF Cons.prems, of verify e] by simp
qed

text \<open>
  C10, as stated, fails: the id is a function of the random draw and the clock, and
  \<open>clients.set\<close> is not guarded, so a second connection with the same draw in the same
  millisecond takes the id of the first and replaces its registry entry.
\<close>

theorem id_collision_overwrites:
  "clients (run sample_verify [hd colliding_run] init) = [(''ars'', 0)] \<and>
   clients (run sample_verify colliding_run init) = [(''ars'', 1)] \<and>
   id_c (infos (run sample_verify colliding_run init) 0) = ''ars'' \<and>
   id_c (infos (run sample_verify colliding_run init) 1) = ''ars'' \<and>
   readyState (sockets (run sample_verify colliding_run init) 0) = OPEN \<and>
   readyState (sockets (run sample_verify colliding_run init) 1) = OPEN"
  by (simp add: colliding_run_def sample_defs eval_defs)

text \<open>
  C10, amended. When the generated id is not held by a registered connection, registering
  appends a new entry under it and leaves every existing entry in place, each under its own
  id; the id recorded for a connection never changes afterwards, and every registry entry
  stays stored under the id of the connection it refers to.
\<close>

theorem registration_keeps_ids:
  assumes registry: "registry_ok st"
  shows "(generateClientId rnd now \<notin> fst ` set (clients st) \<longrightarrow>
            (let st' = snd (on_connection addr agent rnd now st)
             in clients st' = clients st @ [(generateClientId rnd now, next_conn st)] \<and>
                id_c (infos st' (next_conn st)) = generateClientId rnd now \<and>
                (\<forall>(c, j) \<in> set (clients st). id_c (infos st' j) = c \<and> c \<noteq> generateClientId rnd now))) \<and>
         (\<forall>es j. j < next_conn st \<longrightarrow> id_c (infos (run verify es st) j) = id_c (infos st j)) \<and>
         (\<forall>es. \<forall>(c, j) \<in> set (clients (run verify es st)). id_c (infos (run verify es st) j) = c)"
proof (intro conjI impI allI)
  assume fresh: "generateClientId rnd now \<notin> fst ` set (clients st)"
  have old: "id_c (infos (snd (on_connection addr agent rnd now st)) j) = c \<and> c \<noteq> generateClientId rnd now"
    if "(c, j) \<in> set (clients st)" for c j
  proof -
    have "j < next_conn st" "id_c (infos st j) = c"
      using registry that by (auto simp: registry_ok_def)
    moreover have "c \<noteq> generateClientId rnd now"
      using fresh that by force
    ultimately show ?thesis by simp
  qed
  show "let st' = snd (on_connection addr agent rnd now st)
        in clients st' = clients st @ [(generateClientId rnd now, next_conn st)] \<and>
           id_c (infos st' (next_conn st)) = generateClientId rnd now \<and>
           (\<forall>(c, j) \<in> set (clients st). id_c (infos st' j) = c \<and> c \<noteq> generateClientId rnd now)"
  proof -
    have a: "clients (snd (on_connection addr agent rnd now st)) =
        clients st @ [(generateClientId rnd now, next_conn st)]"
      using fresh by (simp add: update_fresh)
    have b: "id_c (infos (snd (on_connection addr agent rnd now st)) (next_conn st)) = generateClientId rnd now"
      by simp
    have c: "\<forall>(c, j) \<in> set (clients st).
        id_c (infos (snd (on_connection addr agent rnd now st)) j) = c \<and> c \<noteq> generateClientId rnd now"
      using old by blast
    show ?thesis
      unfolding Let_def using a b c by blast
  qed
next
  fix es j assume "j < next_conn st"
  then show "id_c (infos (run verify es st) j) = id_c (infos st j)"
    by (rule run_ids)
next
  fix es
  show "\<forall>(c, j) \<in> set (clients (run verify es st)). id_c (infos (run verify es st) j) = c"
    using registry_ok_run [OF registry, of verify es] by (auto simp: registry_ok_def)
qed

theorem registration_keeps_ids_witness:
  "registry_ok fresh_client \<and> generateClientId ''0.b'' 1500 \<notin> fst ` set (clients fresh_client) \<and>
   clients (snd (on_connection ''10.0.0.2'' ''agent'' ''0.b'' 1500 fresh_client)) = [(''ars'', 0), (''b15o'', 1)] \<and>
   0 < next_conn fresh_client \<and>
   id_c (infos (run sample_verify [Message 0 (authenticate_frame ''valid-token'') 2000, Close 0] fresh_client) 0) = ''ars''"
proof -
  have w: "registry_ok fresh_client"
    by (simp add: registry_ok_def fresh_client_def sample_defs eval_defs)
  have h: "generateClientId ''0.b'' 1500 \<notin> fst ` set (clients fresh_client)" "0 < next_conn fresh_client"
    "generateClientId ''0.b'' 1500 = ''b15o''" "clients fresh_client = [(''ars'', 0)]"
    "id_c (infos fresh_client 0) = ''ars''" "next_conn fresh_client = 1"
    by (simp_all add: fresh_client_def sample_defs eval_defs)
  show ?thesis
    using w h registration_keeps_ids [OF w, of "''0.b''" 1500 "''10.0.0.2''" "''agent''" sample_verify]
    by (simp add: Let_def)
qed

end
